theory Spec2Isabelle
  imports Main "HOL-Library.Word"
begin

unbundle bit_operations_syntax

section \<open>Sessions and listeners of kcp-go (sess.go)\<close>

text \<open>
  A shallow embedding of \<^verbatim>\<open>sess.go\<close>: the session (\<^verbatim>\<open>UDPSession\<close>), its stream
  interface (\<^verbatim>\<open>Read\<close>, \<^verbatim>\<open>Write\<close>, \<^verbatim>\<open>Close\<close>), its egress (\<^verbatim>\<open>output\<close>) and ingress
  (\<^verbatim>\<open>kcpInput\<close>, \<^verbatim>\<open>readLoop\<close>) paths, and the listener's demultiplexer (\<^verbatim>\<open>monitor\<close>).

  The collaborators of the session are not part of \<^verbatim>\<open>sess.go\<close>: the KCP core, the FEC
  codec, the nonce source, the block cipher, CRC32 and the packet connection. They are
  parameters of the model: each is an abstract state type with a record of operations
  (\<open>deps\<close>), and every theorem holds for all of them. What the session does to them is
  recorded in a trace of calls.
\<close>

subsection \<open>Bytes, slices and byte order\<close>

type_synonym byte = "8 word"
type_synonym bytes = "byte list"
type_synonym Addr = string
type_synonym Time = int

text \<open>A run-time panic of Go ends the goroutine: it is a value of the model.\<close>

datatype panic = slice_bounds_out_of_range | index_out_of_range | nil_pointer_dereference

text \<open>
  The values of Go's \<^verbatim>\<open>error\<close> that the file produces: \<^verbatim>\<open>errors.New(text)\<close>, the
  \<^verbatim>\<open>errTimeout\<close> struct, and an error handed over by the packet connection.
\<close>

datatype error = errors_New string | errTimeout | conn_error string

definition errBrokenPipe :: string where
  "errBrokenPipe = ''broken pipe''"

definition errInvalidOperation :: string where
  "errInvalidOperation = ''invalid operation''"

definition nonceSize :: nat where "nonceSize = 16"
definition crcSize :: nat where "crcSize = 4"
definition cryptHeaderSize :: nat where "cryptHeaderSize = nonceSize + crcSize"
definition mtuLimit :: nat where "mtuLimit = 1500"
definition rxFECMulti :: int where "rxFECMulti = 3"
definition acceptBacklog :: nat where "acceptBacklog = 128"
definition qlen :: nat where "qlen = 128"

text \<open>
  Modelled from the spec: the constants of \<^verbatim>\<open>kcp.go\<close> and \<^verbatim>\<open>fec.go\<close> that \<^verbatim>\<open>sess.go\<close>
  uses and that are declared outside it (spec, section 6: kcp_overhead=24, fec_header=6,
  fec_header_plus2=8; section 4.3: typeData=0xF1, typeFEC=0xF2).
\<close>

definition IKCP_OVERHEAD :: int where "IKCP_OVERHEAD = 24"
definition fecHeaderSize :: nat where "fecHeaderSize = 6"
definition fecHeaderSizePlus2 :: nat where "fecHeaderSizePlus2 = 8"
definition typeData :: "16 word" where "typeData = 0xF1"
definition typeFEC :: "16 word" where "typeFEC = 0xF2"

text \<open>
  \<^verbatim>\<open>xs[i:]\<close>, \<^verbatim>\<open>xs[:j]\<close> and \<^verbatim>\<open>xs[i:j]\<close>. A slice is modelled by its elements, its
  capacity by its length; a bound outside the slice panics.
\<close>

definition slice_from :: "int \<Rightarrow> 'a list \<Rightarrow> panic + 'a list" where
  "slice_from i xs =
     (if 0 \<le> i \<and> i \<le> int (length xs) then Inr (drop (nat i) xs)
      else Inl slice_bounds_out_of_range)"

definition slice_to :: "int \<Rightarrow> 'a list \<Rightarrow> panic + 'a list" where
  "slice_to j xs =
     (if 0 \<le> j \<and> j \<le> int (length xs) then Inr (take (nat j) xs)
      else Inl slice_bounds_out_of_range)"

definition slice :: "int \<Rightarrow> int \<Rightarrow> 'a list \<Rightarrow> panic + 'a list" where
  "slice i j xs =
     (if 0 \<le> i \<and> i \<le> j \<and> j \<le> int (length xs) then Inr (drop (nat i) (take (nat j) xs))
      else Inl slice_bounds_out_of_range)"

text \<open>
  \<^verbatim>\<open>copy(dst, src)\<close> and every operation that writes into the slice it is given
  (\<^verbatim>\<open>Fill\<close>, \<^verbatim>\<open>Encrypt(b, b)\<close>, \<^verbatim>\<open>Decrypt(b, b)\<close>): the slice keeps its length, the
  bytes written replace a prefix of it.
\<close>

definition copy_into :: "'a list \<Rightarrow> 'a list \<Rightarrow> 'a list" where
  "copy_into dst src = take (length dst) src @ drop (length src) dst"

definition in_place :: "('a list \<Rightarrow> 'a list) \<Rightarrow> 'a list \<Rightarrow> 'a list" where
  "in_place f xs = copy_into xs (f xs)"

text \<open>\<^verbatim>\<open>binary.LittleEndian\<close>: \<^verbatim>\<open>Uint16\<close>, \<^verbatim>\<open>Uint32\<close> and \<^verbatim>\<open>PutUint32\<close>.\<close>

definition Uint16 :: "bytes \<Rightarrow> panic + 16 word" where
  "Uint16 b =
     (if length b < 2 then Inl index_out_of_range
      else Inr (ucast (b ! 0) OR push_bit 8 (ucast (b ! 1))))"

definition Uint32 :: "bytes \<Rightarrow> panic + 32 word" where
  "Uint32 b =
     (if length b < 4 then Inl index_out_of_range
      else Inr (ucast (b ! 0) OR push_bit 8 (ucast (b ! 1))
                OR push_bit 16 (ucast (b ! 2)) OR push_bit 24 (ucast (b ! 3))))"

definition PutUint32 :: "bytes \<Rightarrow> 32 word \<Rightarrow> panic + bytes" where
  "PutUint32 b v =
     (if length b < 4 then Inl index_out_of_range
      else Inr (copy_into b [ucast v, ucast (drop_bit 8 v), ucast (drop_bit 16 v),
                             ucast (drop_bit 24 v)]))"

subsection \<open>The collaborators\<close>

text \<open>
  A block cipher (\<^verbatim>\<open>BlockCrypt\<close>): \<^verbatim>\<open>Encrypt(dst, src)\<close> and \<^verbatim>\<open>Decrypt(dst, src)\<close>, which
  the session always calls with \<^verbatim>\<open>dst = src\<close>.
\<close>

record BlockCrypt =
  Encrypt :: "bytes \<Rightarrow> bytes"
  Decrypt :: "bytes \<Rightarrow> bytes"

text \<open>
  Modelled from the spec: the header that \<^verbatim>\<open>decodeBytes\<close> of \<^verbatim>\<open>fec.go\<close> reads (section 4.3:
  a 32-bit sequence number and a 16-bit flag), with the rest of the datagram.
\<close>

record fecPacket =
  seqid :: "32 word"
  flag :: "16 word"
  pkt_data :: bytes

text \<open>
  The operations of the collaborators. \<open>'k\<close> is the state of the KCP core, \<open>'d\<close> of the
  FEC decoder, \<open>'e\<close> of the FEC encoder, \<open>'n\<close> of the nonce source and \<open>'c\<close> of the packet
  connection. The KCP core calls the session's output callback from inside \<^verbatim>\<open>flush\<close> and
  \<^verbatim>\<open>Input\<close>: these operations return the \<^verbatim>\<open>(buf, size)\<close> pairs they hand to it, in order.
  \<^verbatim>\<open>encode\<close> writes the FEC header into the buffer it is given and returns the parity
  buffers; \<^verbatim>\<open>Recv\<close> returns the message it copies out.
\<close>

record ('k, 'd, 'e, 'n, 'c) deps =
  NewKCP :: "32 word \<Rightarrow> 'k"
  SetMtu :: "int \<Rightarrow> 'k \<Rightarrow> 'k"
  IKCP_MTU_DEF :: int
  WaitSnd :: "'k \<Rightarrow> int"
  snd_wnd :: "'k \<Rightarrow> 32 word"
  mss :: "'k \<Rightarrow> 32 word"
  Send :: "bytes \<Rightarrow> 'k \<Rightarrow> 'k"
  flush :: "bool \<Rightarrow> 'k \<Rightarrow> (bytes \<times> int) list \<times> 'k"
  Input :: "bytes \<Rightarrow> bool \<Rightarrow> bool \<Rightarrow> 'k \<Rightarrow> int \<times> (bytes \<times> int) list \<times> 'k"
  PeekSize :: "'k \<Rightarrow> int"
  Recv :: "'k \<Rightarrow> bytes \<times> 'k"
  newFECDecoder :: "int \<Rightarrow> int \<Rightarrow> int \<Rightarrow> 'd option"
  decodeBytes :: "'d \<Rightarrow> bytes \<Rightarrow> fecPacket"
  decode :: "fecPacket \<Rightarrow> 'd \<Rightarrow> bytes list \<times> 'd"
  newFECEncoder :: "int \<Rightarrow> int \<Rightarrow> int \<Rightarrow> 'e option"
  encode :: "bytes \<Rightarrow> 'e \<Rightarrow> (bytes \<times> bytes list) \<times> 'e"
  nonce_Init :: "'n"
  Fill :: "bytes \<Rightarrow> 'n \<Rightarrow> bytes \<times> 'n"
  ChecksumIEEE :: "bytes \<Rightarrow> 32 word"
  WriteTo :: "bytes \<Rightarrow> Addr \<Rightarrow> 'c \<Rightarrow> (int \<times> error option) \<times> 'c"
  conn_Close :: "'c \<Rightarrow> error option \<times> 'c"

text \<open>The calls the session and the listener make on their collaborators, in order.\<close>

datatype call =
    KCP_New "32 word"
  | KCP_SetMtu int
  | KCP_Send bytes
  | KCP_flush bool
  | KCP_Input bytes bool bool
  | KCP_Recv
  | Conn_WriteTo bytes Addr
  | Conn_Close
  | updater_addSession
  | updater_removeSession
  | Listener_closeSession Addr

subsection \<open>The statistics, the session and its surroundings\<close>

text \<open>
  Modelled from the spec: the counters of \<^verbatim>\<open>DefaultSnmp\<close> (declared in \<^verbatim>\<open>snmp.go\<close>), each a
  \<^verbatim>\<open>uint64\<close> updated with \<^verbatim>\<open>atomic.AddUint64\<close> (section 6, statistics).
\<close>

record Snmp =
  BytesSent :: "64 word"
  BytesReceived :: "64 word"
  MaxConn :: "64 word"
  ActiveOpens :: "64 word"
  PassiveOpens :: "64 word"
  CurrEstab :: "64 word"
  InErrs :: "64 word"
  InCsumErrors :: "64 word"
  KCPInErrors :: "64 word"
  InPkts :: "64 word"
  OutPkts :: "64 word"
  InBytes :: "64 word"
  OutBytes :: "64 word"
  FECParityShards :: "64 word"
  FECErrs :: "64 word"
  FECRecovered :: "64 word"

text \<open>
  \<^verbatim>\<open>UDPSession\<close>. \<^verbatim>\<open>int\<close> is 64 bits wide: \<open>dup\<close> is a word read as two's complement,
  \<open>headerSize\<close> stays far from the bounds. \<open>sess_l\<close> is the field \<^verbatim>\<open>l\<close>, the address of the
  listener that accepted the session or \<^verbatim>\<open>nil\<close>. A channel of capacity one is the value it
  holds, if any; \<open>die\<close> is true once the channel \<^verbatim>\<open>die\<close> is closed. A zero \<^verbatim>\<open>time.Time\<close> is 0.
  The packet connection \<^verbatim>\<open>conn\<close> belongs to the surroundings: an accepted session shares
  the listener's.
\<close>

record ('k, 'd, 'e, 'n) UDPSession =
  kcp :: 'k
  sess_l :: "nat option"
  block :: "BlockCrypt option"
  recvbuf :: bytes
  bufptr :: bytes
  ext :: bytes
  fecDecoder :: "'d option"
  fecEncoder :: "'e option"
  remote :: Addr
  rd :: Time
  wd :: Time
  headerSize :: int
  ackNoDelay :: bool
  writeDelay :: bool
  dup :: "64 word"
  die :: bool
  chReadEvent :: bool
  chWriteEvent :: bool
  chErrorEvent :: "error option"
  nonce :: 'n
  isClosed :: bool

record 'c Ctx =
  snmp :: Snmp
  conn :: 'c
  trace :: "call list"

type_synonym ('k, 'd, 'e, 'n, 'c) st = "('k, 'd, 'e, 'n) UDPSession \<times> 'c Ctx"

subsection \<open>Egress: \<^verbatim>\<open>output\<close> and the callback given to the KCP core\<close>

text \<open>
  Steps 0 to 3 of \<^verbatim>\<open>output\<close>. \<open>output_encode\<close> is steps 0 and 1: the extended buffer
  \<^verbatim>\<open>ext\<close> and the parity buffers \<^verbatim>\<open>ecc\<close> of the FEC encoder. \<open>seal\<close> is steps 2 and 3,
  which \<^verbatim>\<open>ext\<close> and each \<^verbatim>\<open>ecc[k]\<close> go through when a block cipher is set: nonce, CRC32
  and encryption. \<open>output_buffers\<close> is steps 0 to 3.
\<close>

definition seal :: "('k, 'd, 'e, 'n, 'c) deps \<Rightarrow> BlockCrypt \<Rightarrow> bytes \<Rightarrow> 'n \<Rightarrow> panic + bytes \<times> 'n" where
  "seal D bc b n =
     (case slice_to (int nonceSize) b of Inl p \<Rightarrow> Inl p | Inr hd16 \<Rightarrow>
      (case Fill D hd16 n of (filled, n') \<Rightarrow>
       let b1 = copy_into hd16 filled @ drop nonceSize b in
       (case slice_from (int cryptHeaderSize) b1 of Inl p \<Rightarrow> Inl p | Inr body \<Rightarrow>
        (case slice_from (int nonceSize) b1 of Inl p \<Rightarrow> Inl p | Inr tl16 \<Rightarrow>
         (case PutUint32 tl16 (ChecksumIEEE D body) of Inl p \<Rightarrow> Inl p | Inr tl16' \<Rightarrow>
          Inr (in_place (Encrypt bc) (take nonceSize b1 @ tl16'), n'))))))"

fun seal_all :: "('k, 'd, 'e, 'n, 'c) deps \<Rightarrow> BlockCrypt \<Rightarrow> bytes list \<Rightarrow> 'n \<Rightarrow> panic + bytes list \<times> 'n" where
  "seal_all D bc [] n = Inr ([], n)"
| "seal_all D bc (b # bs) n =
     (case seal D bc b n of Inl p \<Rightarrow> Inl p | Inr (b', n') \<Rightarrow>
      (case seal_all D bc bs n' of Inl p \<Rightarrow> Inl p | Inr (bs', n'') \<Rightarrow> Inr (b' # bs', n'')))"

definition output_encode ::
  "('k, 'd, 'e, 'n, 'c) deps \<Rightarrow> bytes \<Rightarrow> ('k, 'd, 'e, 'n) UDPSession
     \<Rightarrow> panic + bytes \<times> bytes list \<times> 'e option" where
  "output_encode D buf s =
     (case (if headerSize s > 0
            then (case slice_to (headerSize s + int (length buf)) (ext s) of
                    Inl p \<Rightarrow> Inl p
                  | Inr e \<Rightarrow> Inr (take (nat (headerSize s)) e @ copy_into (drop (nat (headerSize s)) e) buf))
            else Inr buf) of
        Inl p \<Rightarrow> Inl p
      | Inr ext0 \<Rightarrow>
          (case fecEncoder s of
             None \<Rightarrow> Inr (ext0, [], None)
           | Some e \<Rightarrow> (case encode D ext0 e of
                         ((marked, ecc), e') \<Rightarrow> Inr (copy_into ext0 marked, ecc, Some e'))))"

definition output_buffers ::
  "('k, 'd, 'e, 'n, 'c) deps \<Rightarrow> bytes \<Rightarrow> ('k, 'd, 'e, 'n) UDPSession
     \<Rightarrow> panic + bytes \<times> bytes list \<times> ('k, 'd, 'e, 'n) UDPSession" where
  "output_buffers D buf s =
     (case output_encode D buf s of
        Inl p \<Rightarrow> Inl p
      | Inr (ext1, ecc1, enc1) \<Rightarrow>
          (case (case block s of
                   None \<Rightarrow> Inr (ext1, ecc1, nonce s)
                 | Some bc \<Rightarrow>
                     (case seal D bc ext1 (nonce s) of Inl p \<Rightarrow> Inl p | Inr (ext2, n1) \<Rightarrow>
                      (case seal_all D bc ecc1 n1 of Inl p \<Rightarrow> Inl p | Inr (ecc2, n2) \<Rightarrow>
                       Inr (ext2, ecc2, n2)))) of
             Inl p \<Rightarrow> Inl p
           | Inr (ext3, ecc3, n3) \<Rightarrow>
               Inr (ext3, ecc3,
                    s\<lparr>ext := (if headerSize s > 0 then copy_into (ext s) ext3 else ext s),
                      fecEncoder := enc1, nonce := n3\<rparr>)))"

text \<open>
  Step 4: one \<^verbatim>\<open>WriteTo\<close> on the connection, counted in \<^verbatim>\<open>nbytes\<close> and \<^verbatim>\<open>npkts\<close> when it
  succeeds. The first loop runs while \<^verbatim>\<open>i < s.dup+1\<close>, the addition wrapping around
  at 64 bits; the second once for each parity buffer.
\<close>

definition write_to ::
  "('k, 'd, 'e, 'n, 'c) deps \<Rightarrow> Addr \<Rightarrow> bytes \<Rightarrow> 'c \<times> int \<times> int \<times> call list
     \<Rightarrow> 'c \<times> int \<times> int \<times> call list" where
  "write_to D a b acc =
     (case acc of (cn, nbytes, npkts, tr) \<Rightarrow>
      (case WriteTo D b a cn of
         ((n, None), cn') \<Rightarrow> (cn', nbytes + n, npkts + 1, tr @ [Conn_WriteTo b a])
       | ((n, Some err), cn') \<Rightarrow> (cn', nbytes, npkts, tr @ [Conn_WriteTo b a])))"

definition dup_rounds :: "64 word \<Rightarrow> nat" where
  "dup_rounds d = nat (sint (d + 1))"

definition "output" :: "('k, 'd, 'e, 'n, 'c) deps \<Rightarrow> bytes \<Rightarrow> ('k, 'd, 'e, 'n, 'c) st
    \<Rightarrow> panic + ('k, 'd, 'e, 'n, 'c) st" where
  "output D buf st =
     (case st of (s, c) \<Rightarrow>
      (case output_buffers D buf s of
         Inl p \<Rightarrow> Inl p
       | Inr (ext3, ecc, s') \<Rightarrow>
           let acc1 = ((write_to D (remote s) ext3) ^^ dup_rounds (dup s)) (conn c, 0, 0, trace c);
               (cn, nbytes, npkts, tr) = fold (write_to D (remote s)) ecc acc1
           in Inr (s', c\<lparr>conn := cn, trace := tr,
                         snmp := (snmp c)\<lparr>OutPkts := OutPkts (snmp c) + word_of_int npkts,
                                          OutBytes := OutBytes (snmp c) + word_of_int nbytes\<rparr>\<rparr>)))"

text \<open>
  The closure that \<^verbatim>\<open>newUDPSession\<close> gives to \<^verbatim>\<open>NewKCP\<close>, and its runs over the buffers
  that one call of the KCP core hands to it.
\<close>

definition kcp_output :: "('k, 'd, 'e, 'n, 'c) deps \<Rightarrow> bytes \<times> int \<Rightarrow> ('k, 'd, 'e, 'n, 'c) st
    \<Rightarrow> panic + ('k, 'd, 'e, 'n, 'c) st" where
  "kcp_output D bs st =
     (case bs of (buf, sz) \<Rightarrow>
      if sz \<ge> IKCP_OVERHEAD
      then (case slice_to sz buf of Inl p \<Rightarrow> Inl p | Inr b \<Rightarrow> output D b st)
      else Inr st)"

fun kcp_outputs :: "('k, 'd, 'e, 'n, 'c) deps \<Rightarrow> (bytes \<times> int) list \<Rightarrow> ('k, 'd, 'e, 'n, 'c) st
    \<Rightarrow> panic + ('k, 'd, 'e, 'n, 'c) st" where
  "kcp_outputs D [] st = Inr st"
| "kcp_outputs D (bs # rest) st =
     (case kcp_output D bs st of Inl p \<Rightarrow> Inl p | Inr st' \<Rightarrow> kcp_outputs D rest st')"

subsection \<open>Ingress: \<^verbatim>\<open>kcpInput\<close> and the read loop of a client session\<close>

definition notifyReadEvent :: "('k, 'd, 'e, 'n) UDPSession \<Rightarrow> ('k, 'd, 'e, 'n) UDPSession" where
  "notifyReadEvent s = s\<lparr>chReadEvent := True\<rparr>"

definition notifyWriteEvent :: "('k, 'd, 'e, 'n) UDPSession \<Rightarrow> ('k, 'd, 'e, 'n) UDPSession" where
  "notifyWriteEvent s = s\<lparr>chWriteEvent := True\<rparr>"

text \<open>
  \<^verbatim>\<open>s.kcp.Input(b, regular, s.ackNoDelay)\<close> and \<^verbatim>\<open>s.kcp.flush(ackOnly)\<close>, with the runs
  of the output callback that they cause.
\<close>

definition call_Input :: "('k, 'd, 'e, 'n, 'c) deps \<Rightarrow> bytes \<Rightarrow> bool \<Rightarrow> ('k, 'd, 'e, 'n, 'c) st
    \<Rightarrow> panic + int \<times> ('k, 'd, 'e, 'n, 'c) st" where
  "call_Input D b regular st =
     (case st of (s, c) \<Rightarrow>
      (case Input D b regular (ackNoDelay s) (kcp s) of (ret, outs, k') \<Rightarrow>
       (case kcp_outputs D outs
               (s\<lparr>kcp := k'\<rparr>, c\<lparr>trace := trace c @ [KCP_Input b regular (ackNoDelay s)]\<rparr>) of
          Inl p \<Rightarrow> Inl p
        | Inr st' \<Rightarrow> Inr (ret, st'))))"

definition call_flush :: "('k, 'd, 'e, 'n, 'c) deps \<Rightarrow> bool \<Rightarrow> ('k, 'd, 'e, 'n, 'c) st
    \<Rightarrow> panic + ('k, 'd, 'e, 'n, 'c) st" where
  "call_flush D ackOnly st =
     (case st of (s, c) \<Rightarrow>
      (case flush D ackOnly (kcp s) of (outs, k') \<Rightarrow>
       kcp_outputs D outs (s\<lparr>kcp := k'\<rparr>, c\<lparr>trace := trace c @ [KCP_flush ackOnly]\<rparr>)))"

text \<open>
  The loop of \<^verbatim>\<open>kcpInput\<close> over the shards that the FEC decoder recovered. The counters
  are the locals \<^verbatim>\<open>kcpInErrors\<close>, \<^verbatim>\<open>fecErrs\<close> and \<^verbatim>\<open>fecRecovered\<close>.
\<close>

fun input_recovers :: "('k, 'd, 'e, 'n, 'c) deps \<Rightarrow> bytes list
    \<Rightarrow> ('k, 'd, 'e, 'n, 'c) st \<times> 64 word \<times> 64 word \<times> 64 word
    \<Rightarrow> panic + ('k, 'd, 'e, 'n, 'c) st \<times> 64 word \<times> 64 word \<times> 64 word" where
  "input_recovers D [] acc = Inr acc"
| "input_recovers D (r # rs) acc =
     (case acc of (st, kcpInErrors, fecErrs, fecRecovered) \<Rightarrow>
      if length r \<ge> 2
      then (case Uint16 r of
              Inl p \<Rightarrow> Inl p
            | Inr sz \<Rightarrow>
                if uint sz \<le> int (length r) \<and> sz \<ge> 2
                then (case slice 2 (uint sz) r of
                        Inl p \<Rightarrow> Inl p
                      | Inr b \<Rightarrow>
                          (case call_Input D b False st of
                             Inl p \<Rightarrow> Inl p
                           | Inr (ret, st') \<Rightarrow>
                               if ret = 0
                               then input_recovers D rs (st', kcpInErrors, fecErrs, fecRecovered + 1)
                               else input_recovers D rs (st', kcpInErrors + 1, fecErrs, fecRecovered)))
                else input_recovers D rs (st, kcpInErrors, fecErrs + 1, fecRecovered))
      else input_recovers D rs (st, kcpInErrors, fecErrs + 1, fecRecovered))"

definition notify_after_input :: "('k, 'd, 'e, 'n, 'c) deps \<Rightarrow> int \<Rightarrow> ('k, 'd, 'e, 'n) UDPSession
    \<Rightarrow> ('k, 'd, 'e, 'n) UDPSession" where
  "notify_after_input D waitsnd s =
     (let s1 = (if PeekSize D (kcp s) > 0 then notifyReadEvent s else s)
      in if WaitSnd D (kcp s1) < waitsnd then notifyWriteEvent s1 else s1)"

definition count_input :: "bytes \<Rightarrow> 64 word \<Rightarrow> 64 word \<Rightarrow> 64 word \<Rightarrow> 64 word \<Rightarrow> Snmp \<Rightarrow> Snmp" where
  "count_input data0 fecParityShards kcpInErrors fecErrs fecRecovered m =
     (let m1 = m\<lparr>InPkts := InPkts m + 1\<rparr>;
          m2 = m1\<lparr>InBytes := InBytes m1 + of_nat (length data0)\<rparr>;
          m3 = (if fecParityShards > 0
                then m2\<lparr>FECParityShards := FECParityShards m2 + fecParityShards\<rparr> else m2);
          m4 = (if kcpInErrors > 0 then m3\<lparr>KCPInErrors := KCPInErrors m3 + kcpInErrors\<rparr> else m3);
          m5 = (if fecErrs > 0 then m4\<lparr>FECErrs := FECErrs m4 + fecErrs\<rparr> else m4)
      in if fecRecovered > 0 then m5\<lparr>FECRecovered := FECRecovered m5 + fecRecovered\<rparr> else m5)"

definition kcpInput :: "('k, 'd, 'e, 'n, 'c) deps \<Rightarrow> bytes \<Rightarrow> ('k, 'd, 'e, 'n, 'c) st
    \<Rightarrow> panic + ('k, 'd, 'e, 'n, 'c) st" where
  "kcpInput D data0 st =
     (case st of (s, c) \<Rightarrow>
      (case fecDecoder s of
         Some d \<Rightarrow>
           if length data0 > fecHeaderSize
           then (let f = decodeBytes D d data0 in
                 if flag f = typeData \<or> flag f = typeFEC
                 then (let fecParityShards = (if flag f = typeFEC then 1 else 0);
                           (recovers, d') = decode D f d;
                           s0 = s\<lparr>fecDecoder := Some d'\<rparr>;
                           waitsnd = WaitSnd D (kcp s0)
                       in (case (if flag f = typeData
                                 then (case slice_from (int fecHeaderSizePlus2) data0 of
                                         Inl p \<Rightarrow> Inl p
                                       | Inr b \<Rightarrow>
                                           (case call_Input D b True (s0, c) of
                                              Inl p \<Rightarrow> Inl p
                                            | Inr (ret, st1) \<Rightarrow>
                                                Inr (st1, if ret \<noteq> 0 then 1 else 0)))
                                 else Inr ((s0, c), 0)) of
                             Inl p \<Rightarrow> Inl p
                           | Inr (st1, kcpInErrors1) \<Rightarrow>
                               (case input_recovers D recovers (st1, kcpInErrors1, 0, 0) of
                                  Inl p \<Rightarrow> Inl p
                                | Inr ((s2, c2), kcpInErrors, fecErrs, fecRecovered) \<Rightarrow>
                                    Inr (notify_after_input D waitsnd s2,
                                         c2\<lparr>snmp := count_input data0 fecParityShards kcpInErrors
                                                       fecErrs fecRecovered (snmp c2)\<rparr>))))
                 else Inr (s, c\<lparr>snmp := count_input data0 0 0 0 0
                                           ((snmp c)\<lparr>InErrs := InErrs (snmp c) + 1\<rparr>)\<rparr>))
           else Inr (s, c\<lparr>snmp := count_input data0 0 0 0 0
                                     ((snmp c)\<lparr>InErrs := InErrs (snmp c) + 1\<rparr>)\<rparr>)
       | None \<Rightarrow>
           (let waitsnd = WaitSnd D (kcp s)
            in (case call_Input D data0 True (s, c) of
                  Inl p \<Rightarrow> Inl p
                | Inr (ret, (s1, c1)) \<Rightarrow>
                    Inr (notify_after_input D waitsnd s1,
                         c1\<lparr>snmp := count_input data0 0 (if ret \<noteq> 0 then 1 else 0) 0 0 (snmp c1)\<rparr>)))))"

text \<open>
  What \<^verbatim>\<open>readLoop\<close> and \<^verbatim>\<open>monitor\<close> both do first with a datagram taken from the
  receiver's queue: decrypt, drop the nonce, compare the CRC32 of the bytes after the
  checksum field with the field. The result is the payload when \<^verbatim>\<open>dataValid\<close> is set.
\<close>

definition verify_packet :: "('k, 'd, 'e, 'n, 'c) deps \<Rightarrow> BlockCrypt option \<Rightarrow> bytes
    \<Rightarrow> panic + bytes option" where
  "verify_packet D blk data0 =
     (case blk of
        Some bc \<Rightarrow>
          (case slice_from (int nonceSize) (in_place (Decrypt bc) data0) of
             Inl p \<Rightarrow> Inl p
           | Inr data1 \<Rightarrow>
               (case slice_from (int crcSize) data1 of
                  Inl p \<Rightarrow> Inl p
                | Inr body \<Rightarrow>
                    (case Uint32 data1 of
                       Inl p \<Rightarrow> Inl p
                     | Inr stored \<Rightarrow>
                         if ChecksumIEEE D body = stored then Inr (Some body) else Inr None)))
      | None \<Rightarrow> Inr (Some data0))"

definition count_csum_error :: "'c Ctx \<Rightarrow> 'c Ctx" where
  "count_csum_error c = c\<lparr>snmp := (snmp c)\<lparr>InCsumErrors := InCsumErrors (snmp c) + 1\<rparr>\<rparr>"

text \<open>The body of \<^verbatim>\<open>readLoop\<close> for one datagram \<^verbatim>\<open>data := <-chPacket\<close>.\<close>

definition readLoop_packet :: "('k, 'd, 'e, 'n, 'c) deps \<Rightarrow> bytes \<Rightarrow> ('k, 'd, 'e, 'n, 'c) st
    \<Rightarrow> panic + ('k, 'd, 'e, 'n, 'c) st" where
  "readLoop_packet D data0 st =
     (case st of (s, c) \<Rightarrow>
      (case verify_packet D (block s) data0 of
         Inl p \<Rightarrow> Inl p
       | Inr None \<Rightarrow> Inr (s, count_csum_error c)
       | Inr (Some payload) \<Rightarrow> kcpInput D payload (s, c)))"

subsection \<open>The stream interface: \<^verbatim>\<open>Read\<close>, \<^verbatim>\<open>Write\<close> and \<^verbatim>\<open>Close\<close>\<close>

text \<open>
  \<^verbatim>\<open>Read\<close> and \<^verbatim>\<open>Write\<close> are loops: each pass takes the lock, returns if it can, and
  otherwise parks the goroutine in a \<^verbatim>\<open>select\<close>. A pass is a function of the state and
  of the clock; it either returns or parks.
\<close>

datatype 'a pass = Returned 'a | Parked

text \<open>
  The inner loop of \<^verbatim>\<open>Write\<close>: \<^verbatim>\<open>b\<close> goes to \<^verbatim>\<open>Send\<close> in pieces of \<^verbatim>\<open>s.kcp.mss\<close> bytes.
  With \<^verbatim>\<open>mss = 0\<close> and bytes left the loop never ends: the result is \<open>None\<close>.
\<close>

partial_function (option) send_loop :: "('k, 'd, 'e, 'n, 'c) deps \<Rightarrow> bytes \<Rightarrow> 'k \<Rightarrow> call list
    \<Rightarrow> ('k \<times> call list) option" where
  "send_loop D b k tr =
     (if int (length b) \<le> uint (mss D k)
      then Some (Send D b k, tr @ [KCP_Send b])
      else send_loop D (drop (unat (mss D k)) b)
             (Send D (take (unat (mss D k)) b) k) (tr @ [KCP_Send (take (unat (mss D k)) b)]))"

definition Write_pass :: "('k, 'd, 'e, 'n, 'c) deps \<Rightarrow> Time \<Rightarrow> bytes \<Rightarrow> ('k, 'd, 'e, 'n, 'c) st
    \<Rightarrow> (panic + (int \<times> error option) pass \<times> ('k, 'd, 'e, 'n, 'c) st) option" where
  "Write_pass D now b st =
     (case st of (s, c) \<Rightarrow>
      if isClosed s then Some (Inr (Returned (0, Some (errors_New errBrokenPipe)), (s, c)))
      else if WaitSnd D (kcp s) < uint (snd_wnd D (kcp s))
      then (case send_loop D b (kcp s) (trace c) of
              None \<Rightarrow> None
            | Some (k', tr') \<Rightarrow>
                (case (if WaitSnd D k' \<ge> uint (snd_wnd D k') \<or> \<not> writeDelay s
                       then call_flush D False (s\<lparr>kcp := k'\<rparr>, c\<lparr>trace := tr'\<rparr>)
                       else Inr (s\<lparr>kcp := k'\<rparr>, c\<lparr>trace := tr'\<rparr>)) of
                   Inl p \<Rightarrow> Some (Inl p)
                 | Inr (s', c') \<Rightarrow>
                     Some (Inr (Returned (int (length b), None),
                                (s', c'\<lparr>snmp := (snmp c')\<lparr>BytesSent :=
                                            BytesSent (snmp c') + of_nat (length b)\<rparr>\<rparr>)))))
      else if wd s \<noteq> 0 \<and> now > wd s then Some (Inr (Returned (0, Some errTimeout), (s, c)))
      else Some (Inr (Parked, (s, c))))"

text \<open>
  The whole of \<^verbatim>\<open>Write\<close>. While the goroutine is parked the other goroutines run: each
  entry of the schedule is the time at which the \<^verbatim>\<open>select\<close> returns (on a write event, on
  the timer or on \<^verbatim>\<open>die\<close>) and what the others did to the state until then. \<open>None\<close>: the
  call has not returned when the schedule ends, or never leaves its inner loop.
\<close>

fun Write :: "('k, 'd, 'e, 'n, 'c) deps
    \<Rightarrow> (Time \<times> (('k, 'd, 'e, 'n, 'c) st \<Rightarrow> ('k, 'd, 'e, 'n, 'c) st)) list
    \<Rightarrow> Time \<Rightarrow> bytes \<Rightarrow> ('k, 'd, 'e, 'n, 'c) st
    \<Rightarrow> (panic + (int \<times> error option) \<times> ('k, 'd, 'e, 'n, 'c) st) option" where
  "Write D sched now b st =
     (case Write_pass D now b st of
        None \<Rightarrow> None
      | Some (Inl p) \<Rightarrow> Some (Inl p)
      | Some (Inr (Returned r, st')) \<Rightarrow> Some (Inr (r, st'))
      | Some (Inr (Parked, st')) \<Rightarrow>
          (case sched of
             [] \<Rightarrow> None
           | (t, others) # rest \<Rightarrow> Write D rest t b (others st')))"

text \<open>
  One pass of \<^verbatim>\<open>Read\<close>. The result carries the caller's buffer \<^verbatim>\<open>b\<close> as the call
  leaves it. \<open>recvbuf\<close> is the whole backing array of \<^verbatim>\<open>s.recvbuf\<close>.
\<close>

definition Read_pass :: "('k, 'd, 'e, 'n, 'c) deps \<Rightarrow> Time \<Rightarrow> bytes \<Rightarrow> ('k, 'd, 'e, 'n, 'c) st
    \<Rightarrow> (int \<times> error option \<times> bytes) pass \<times> ('k, 'd, 'e, 'n, 'c) st" where
  "Read_pass D now b st =
     (case st of (s, c) \<Rightarrow>
      if length (bufptr s) > 0
      then (let n = min (length b) (length (bufptr s))
            in (Returned (int n, None, copy_into b (bufptr s)), (s\<lparr>bufptr := drop n (bufptr s)\<rparr>, c)))
      else if isClosed s then (Returned (0, Some (errors_New errBrokenPipe), b), (s, c))
      else if PeekSize D (kcp s) > 0
      then (let sz = PeekSize D (kcp s);
                c1 = c\<lparr>snmp := (snmp c)\<lparr>BytesReceived := BytesReceived (snmp c) + word_of_int sz\<rparr>,
                       trace := trace c @ [KCP_Recv]\<rparr>;
                (msg, k') = Recv D (kcp s)
            in if int (length b) \<ge> sz
               then (Returned (sz, None, copy_into b msg), (s\<lparr>kcp := k'\<rparr>, c1))
               else (let arr = (if int (length (recvbuf s)) < sz then replicate (nat sz) 0 else recvbuf s);
                         arr' = copy_into (take (nat sz) arr) msg @ drop (nat sz) arr;
                         n = min (length b) (nat sz)
                     in (Returned (int n, None, copy_into b (take (nat sz) arr')),
                         (s\<lparr>kcp := k', recvbuf := arr', bufptr := drop n (take (nat sz) arr')\<rparr>, c1))))
      else if rd s \<noteq> 0 \<and> now > rd s then (Returned (0, Some errTimeout, b), (s, c))
      else (Parked, (s, c)))"

text \<open>
  The whole of \<^verbatim>\<open>Read\<close>. An entry of the schedule also says whether the \<^verbatim>\<open>select\<close>
  took the case \<^verbatim>\<open>err = <-s.chErrorEvent\<close>, which returns at once.
\<close>

fun Read :: "('k, 'd, 'e, 'n, 'c) deps
    \<Rightarrow> (Time \<times> (('k, 'd, 'e, 'n, 'c) st \<Rightarrow> ('k, 'd, 'e, 'n, 'c) st) \<times> bool) list
    \<Rightarrow> Time \<Rightarrow> bytes \<Rightarrow> ('k, 'd, 'e, 'n, 'c) st
    \<Rightarrow> ((int \<times> error option \<times> bytes) \<times> ('k, 'd, 'e, 'n, 'c) st) option" where
  "Read D sched now b st =
     (case Read_pass D now b st of
        (Returned r, st') \<Rightarrow> Some (r, st')
      | (Parked, st') \<Rightarrow>
          (case sched of
             [] \<Rightarrow> None
           | (t, others, on_error) # rest \<Rightarrow>
               (case others st' of (s1, c1) \<Rightarrow>
                (case (on_error, chErrorEvent s1) of
                   (True, Some err) \<Rightarrow> Some ((0, Some err, b), (s1\<lparr>chErrorEvent := None\<rparr>, c1))
                 | _ \<Rightarrow> Read D rest t b (s1, c1)))))"

text \<open>
  \<^verbatim>\<open>Close\<close>. \<^verbatim>\<open>closeSession\<close> hands the remote address to the listener's monitor, which
  removes the session from its map (\<open>SessionClosed\<close> below).
\<close>

definition Close :: "('k, 'd, 'e, 'n, 'c) deps \<Rightarrow> ('k, 'd, 'e, 'n, 'c) st
    \<Rightarrow> error option \<times> ('k, 'd, 'e, 'n, 'c) st" where
  "Close D st =
     (case st of (s, c) \<Rightarrow>
      let c1 = c\<lparr>trace := trace c @ [updater_removeSession]
                    @ (if sess_l s \<noteq> None then [Listener_closeSession (remote s)] else [])\<rparr>
      in if isClosed s then (Some (errors_New errBrokenPipe), (s, c1))
         else (let s' = s\<lparr>die := True, isClosed := True\<rparr>;
                   c2 = c1\<lparr>snmp := (snmp c1)\<lparr>CurrEstab := CurrEstab (snmp c1) + NOT 0\<rparr>\<rparr>
               in if sess_l s = None
                  then (case conn_Close D (conn c2) of
                          (r, cn') \<Rightarrow> (r, (s', c2\<lparr>conn := cn', trace := trace c2 @ [Conn_Close]\<rparr>)))
                  else (None, (s', c2))))"

subsection \<open>Creating a session\<close>

definition newUDPSession :: "('k, 'd, 'e, 'n, 'c) deps \<Rightarrow> 32 word \<Rightarrow> int \<Rightarrow> int \<Rightarrow> nat option
    \<Rightarrow> Addr \<Rightarrow> BlockCrypt option \<Rightarrow> 'c Ctx \<Rightarrow> ('k, 'd, 'e, 'n, 'c) st" where
  "newUDPSession D conv dataShards parityShards lp raddr blk c =
     (let enc = (if blk \<noteq> None then newFECEncoder D dataShards parityShards (int cryptHeaderSize)
                 else newFECEncoder D dataShards parityShards 0);
          hs = (if blk \<noteq> None then int cryptHeaderSize else 0)
               + (if enc \<noteq> None then int fecHeaderSizePlus2 else 0);
          m1 = (if lp = None then (snmp c)\<lparr>ActiveOpens := ActiveOpens (snmp c) + 1\<rparr>
                else (snmp c)\<lparr>PassiveOpens := PassiveOpens (snmp c) + 1\<rparr>);
          m2 = m1\<lparr>CurrEstab := CurrEstab m1 + 1\<rparr>;
          m3 = (if CurrEstab m2 > MaxConn m2 then m2\<lparr>MaxConn := CurrEstab m2\<rparr> else m2)
      in (\<lparr>kcp = SetMtu D (IKCP_MTU_DEF D - hs) (NewKCP D conv),
           sess_l = lp,
           block = blk,
           recvbuf = replicate mtuLimit 0,
           bufptr = [],
           ext = (if hs > 0 then replicate mtuLimit 0 else []),
           fecDecoder = newFECDecoder D (rxFECMulti * (dataShards + parityShards)) dataShards parityShards,
           fecEncoder = enc,
           remote = raddr,
           rd = 0,
           wd = 0,
           headerSize = hs,
           ackNoDelay = False,
           writeDelay = False,
           dup = 0,
           die = False,
           chReadEvent = False,
           chWriteEvent = False,
           chErrorEvent = None,
           nonce = nonce_Init D,
           isClosed = False\<rparr>,
          c\<lparr>snmp := m3,
            trace := trace c @ [KCP_New conv, KCP_SetMtu (IKCP_MTU_DEF D - hs), updater_addSession]\<rparr>))"

subsection \<open>The listener\<close>

text \<open>A buffered channel: the values it holds, oldest first, and its capacity.\<close>

record 'a chan =
  chan_buf :: "'a list"
  chan_cap :: nat

text \<open>
  \<^verbatim>\<open>Listener\<close>, with the locals \<^verbatim>\<open>lastAddr\<close> and \<^verbatim>\<open>lastSession\<close> of \<^verbatim>\<open>monitor\<close>, which live
  as long as its loop. A \<^verbatim>\<open>*UDPSession\<close> is an address in the heap of the surroundings.
\<close>

record 'd Listener =
  l_block :: "BlockCrypt option"
  l_dataShards :: int
  l_parityShards :: int
  l_fecDecoder :: "'d option"
  sessions :: "Addr \<rightharpoonup> nat"
  chAccepts :: "nat chan"
  l_headerSize :: int
  l_die :: bool
  lastAddr :: Addr
  lastSession :: "nat option"

record ('k, 'd, 'e, 'n, 'c) World =
  heap :: "nat \<rightharpoonup> ('k, 'd, 'e, 'n) UDPSession"
  next_ptr :: nat
  lis :: "'d Listener"
  ctx :: "'c Ctx"

definition ServeConn :: "('k, 'd, 'e, 'n, 'c) deps \<Rightarrow> BlockCrypt option \<Rightarrow> int \<Rightarrow> int \<Rightarrow> 'c Ctx
    \<Rightarrow> ('k, 'd, 'e, 'n, 'c) World" where
  "ServeConn D blk dataShards parityShards c =
     (let dec = newFECDecoder D (rxFECMulti * (dataShards + parityShards)) dataShards parityShards
      in \<lparr>heap = Map.empty,
          next_ptr = 1,
          lis = \<lparr>l_block = blk,
                 l_dataShards = dataShards,
                 l_parityShards = parityShards,
                 l_fecDecoder = dec,
                 sessions = Map.empty,
                 chAccepts = \<lparr>chan_buf = [], chan_cap = acceptBacklog\<rparr>,
                 l_headerSize = (if blk \<noteq> None then int cryptHeaderSize else 0)
                                + (if dec \<noteq> None then int fecHeaderSizePlus2 else 0),
                 l_die = False,
                 lastAddr = [],
                 lastSession = None\<rparr>,
          ctx = c\<rparr>)"

text \<open>
  The conversation id of a datagram from an unknown peer: \<^verbatim>\<open>convValid\<close> and \<^verbatim>\<open>conv\<close>
  of \<^verbatim>\<open>monitor\<close>.
\<close>

definition read_conv :: "'d option \<Rightarrow> bytes \<Rightarrow> panic + 32 word option" where
  "read_conv dec payload =
     (if dec \<noteq> None
      then (case slice_from 4 payload of
              Inl p \<Rightarrow> Inl p
            | Inr t \<Rightarrow>
                (case Uint16 t of
                   Inl p \<Rightarrow> Inl p
                 | Inr isfec \<Rightarrow>
                     if isfec = typeData
                     then (case slice_from (int fecHeaderSizePlus2) payload of
                             Inl p \<Rightarrow> Inl p
                           | Inr t' \<Rightarrow> (case Uint32 t' of Inl p \<Rightarrow> Inl p | Inr v \<Rightarrow> Inr (Some v)))
                     else Inr None))
      else (case Uint32 payload of Inl p \<Rightarrow> Inl p | Inr v \<Rightarrow> Inr (Some v)))"

text \<open>
  The session that \<^verbatim>\<open>monitor\<close> finds for an address: the cached one when the address is
  the last one seen, else the one in the map, which then becomes the cached one.
\<close>

definition find_session :: "'d Listener \<Rightarrow> Addr \<Rightarrow> (nat option \<times> bool) \<times> 'd Listener" where
  "find_session l addr =
     (if addr = lastAddr l then ((lastSession l, True), l)
      else (case sessions l addr of
              Some p \<Rightarrow> ((Some p, True), l\<lparr>lastSession := Some p, lastAddr := addr\<rparr>)
            | None \<Rightarrow> ((None, False), l)))"

text \<open>The body of \<^verbatim>\<open>monitor\<close> for one packet \<^verbatim>\<open>p := <-chPacket\<close>.\<close>

definition monitor_packet :: "('k, 'd, 'e, 'n, 'c) deps \<Rightarrow> Addr \<Rightarrow> bytes \<Rightarrow> ('k, 'd, 'e, 'n, 'c) World
    \<Rightarrow> panic + ('k, 'd, 'e, 'n, 'c) World" where
  "monitor_packet D from data0 w =
     (case verify_packet D (l_block (lis w)) data0 of
        Inl p \<Rightarrow> Inl p
      | Inr None \<Rightarrow> Inr (w\<lparr>ctx := count_csum_error (ctx w)\<rparr>)
      | Inr (Some payload) \<Rightarrow>
          (case find_session (lis w) from of
             ((sp, True), l1) \<Rightarrow>
               (case sp of
                  None \<Rightarrow> Inl nil_pointer_dereference
                | Some p \<Rightarrow>
                    (case heap w p of
                       None \<Rightarrow> Inl nil_pointer_dereference
                     | Some s \<Rightarrow>
                         (case kcpInput D payload (s, ctx w) of
                            Inl e \<Rightarrow> Inl e
                          | Inr (s', c') \<Rightarrow> Inr (w\<lparr>heap := (heap w)(p \<mapsto> s'), lis := l1, ctx := c'\<rparr>))))
           | ((sp, False), l1) \<Rightarrow>
               if length (chan_buf (chAccepts l1)) < chan_cap (chAccepts l1)
               then (case read_conv (l_fecDecoder l1) payload of
                       Inl e \<Rightarrow> Inl e
                     | Inr None \<Rightarrow> Inr (w\<lparr>lis := l1\<rparr>)
                     | Inr (Some conv) \<Rightarrow>
                         (case kcpInput D payload
                                 (newUDPSession D conv (l_dataShards l1) (l_parityShards l1) (Some 0)
                                    from (l_block l1) (ctx w)) of
                            Inl e \<Rightarrow> Inl e
                          | Inr (s', c') \<Rightarrow>
                              Inr (w\<lparr>heap := (heap w)(next_ptr w \<mapsto> s'),
                                     next_ptr := next_ptr w + 1,
                                     lis := l1\<lparr>sessions := (sessions l1)(from \<mapsto> next_ptr w),
                                               chAccepts := (chAccepts l1)\<lparr>chan_buf :=
                                                  chan_buf (chAccepts l1) @ [next_ptr w]\<rparr>\<rparr>,
                                     ctx := c'\<rparr>)))
               else Inr (w\<lparr>lis := l1\<rparr>)))"

text \<open>
  What reaches the listener: a packet from the receiver, the address of a closed session
  (\<^verbatim>\<open>deadlink := <-l.chSessionClosed\<close>), and, on the other end of the accept queue,
  \<^verbatim>\<open>AcceptKCP\<close> taking a session off it.
\<close>

datatype event = Packet Addr bytes | SessionClosed Addr | Accepted

definition step :: "('k, 'd, 'e, 'n, 'c) deps \<Rightarrow> event \<Rightarrow> ('k, 'd, 'e, 'n, 'c) World
    \<Rightarrow> panic + ('k, 'd, 'e, 'n, 'c) World" where
  "step D ev w =
     (case ev of
        Packet from data0 \<Rightarrow> monitor_packet D from data0 w
      | SessionClosed deadlink \<Rightarrow>
          Inr (w\<lparr>lis := (lis w)\<lparr>sessions := (sessions (lis w))(deadlink := None)\<rparr>\<rparr>)
      | Accepted \<Rightarrow>
          Inr (w\<lparr>lis := (lis w)\<lparr>chAccepts := (chAccepts (lis w))\<lparr>chan_buf :=
                       tl (chan_buf (chAccepts (lis w)))\<rparr>\<rparr>\<rparr>))"

fun run :: "('k, 'd, 'e, 'n, 'c) deps \<Rightarrow> event list \<Rightarrow> ('k, 'd, 'e, 'n, 'c) World
    \<Rightarrow> panic + ('k, 'd, 'e, 'n, 'c) World" where
  "run D [] w = Inr w"
| "run D (ev # evs) w = (case step D ev w of Inl p \<Rightarrow> Inl p | Inr w' \<Rightarrow> run D evs w')"

subsection \<open>A reference instance of the collaborators\<close>

text \<open>
  Modelled from the spec: a cut-down KCP core (\<^verbatim>\<open>kcp.go\<close> is not part of the sources at
  hand), after section 4.4 and the segment layout of section 6. \<^verbatim>\<open>Send\<close> appends to the
  send queue; \<^verbatim>\<open>flush\<close> produces an ACK segment for each pending ack and, unless it is
  called for acks only, a PUSH segment for each queued payload, all in one buffer;
  \<^verbatim>\<open>Input\<close> accepts one segment, rejects short framing, a foreign conversation and an
  unknown command, and flushes the acks when \<^verbatim>\<open>ackNoDelay\<close> is set; \<^verbatim>\<open>PeekSize\<close> is -1
  when no message is ready. There are no windows, timers or retransmissions. The
  examples below instantiate the parameters of the model with it.
\<close>

record ref_kcp =
  k_conv :: "32 word"
  k_mss :: "32 word"
  k_snd_wnd :: "32 word"
  snd_queue :: "bytes list"
  snd_buf :: "bytes list"
  acklist :: "32 word list"
  rcv_queue :: "bytes list"

definition le32 :: "32 word \<Rightarrow> bytes" where
  "le32 v = [ucast v, ucast (drop_bit 8 v), ucast (drop_bit 16 v), ucast (drop_bit 24 v)]"

definition u32_at :: "nat \<Rightarrow> bytes \<Rightarrow> 32 word" where
  "u32_at i b = (case Uint32 (drop i b) of Inl p \<Rightarrow> 0 | Inr v \<Rightarrow> v)"

definition u16_at :: "nat \<Rightarrow> bytes \<Rightarrow> 16 word" where
  "u16_at i b = (case Uint16 (drop i b) of Inl p \<Rightarrow> 0 | Inr v \<Rightarrow> v)"

definition ref_segment :: "32 word \<Rightarrow> byte \<Rightarrow> 32 word \<Rightarrow> bytes \<Rightarrow> bytes" where
  "ref_segment conv cmd sn payload =
     le32 conv @ [cmd, 0, 0, 0] @ le32 0 @ le32 sn @ le32 0 @ le32 (of_nat (length payload)) @ payload"

definition ref_NewKCP :: "32 word \<Rightarrow> ref_kcp" where
  "ref_NewKCP conv =
     \<lparr>k_conv = conv, k_mss = 1376, k_snd_wnd = 32, snd_queue = [], snd_buf = [],
      acklist = [], rcv_queue = []\<rparr>"

definition ref_SetMtu :: "int \<Rightarrow> ref_kcp \<Rightarrow> ref_kcp" where
  "ref_SetMtu mtu k = k\<lparr>k_mss := word_of_int (mtu - 24)\<rparr>"

definition ref_WaitSnd :: "ref_kcp \<Rightarrow> int" where
  "ref_WaitSnd k = int (length (snd_buf k) + length (snd_queue k))"

definition ref_Send :: "bytes \<Rightarrow> ref_kcp \<Rightarrow> ref_kcp" where
  "ref_Send b k = (if b = [] then k else k\<lparr>snd_queue := snd_queue k @ [b]\<rparr>)"

definition ref_flush :: "bool \<Rightarrow> ref_kcp \<Rightarrow> (bytes \<times> int) list \<times> ref_kcp" where
  "ref_flush ackOnly k =
     (let acks = concat (map (\<lambda>sn. ref_segment (k_conv k) 82 sn []) (acklist k));
          pushes = (if ackOnly then []
                    else concat (map (ref_segment (k_conv k) 81 0) (snd_queue k)));
          k' = (if ackOnly then k\<lparr>acklist := []\<rparr>
                else k\<lparr>acklist := [], snd_buf := snd_buf k @ snd_queue k, snd_queue := []\<rparr>)
      in (if acks @ pushes = [] then [] else [(acks @ pushes, int (length (acks @ pushes)))], k'))"

definition ref_Input :: "bytes \<Rightarrow> bool \<Rightarrow> bool \<Rightarrow> ref_kcp \<Rightarrow> int \<times> (bytes \<times> int) list \<times> ref_kcp" where
  "ref_Input b regular ackND k =
     (if length b < 24 then (-1, [], k)
      else if u32_at 0 b \<noteq> k_conv k then (-1, [], k)
      else if b ! 4 = 81
      then (let k1 = k\<lparr>rcv_queue := rcv_queue k @ [take (unat (u32_at 20 b)) (drop 24 b)],
                        acklist := acklist k @ [u32_at 12 b]\<rparr>
            in if ackND then (case ref_flush True k1 of (outs, k2) \<Rightarrow> (0, outs, k2))
               else (0, [], k1))
      else if b ! 4 = 82 then (0, [], k\<lparr>snd_buf := tl (snd_buf k)\<rparr>)
      else (-3, [], k))"

definition ref_PeekSize :: "ref_kcp \<Rightarrow> int" where
  "ref_PeekSize k = (case rcv_queue k of [] \<Rightarrow> -1 | m # ms \<Rightarrow> int (length m))"

definition ref_Recv :: "ref_kcp \<Rightarrow> bytes \<times> ref_kcp" where
  "ref_Recv k = (case rcv_queue k of [] \<Rightarrow> ([], k) | m # ms \<Rightarrow> (m, k\<lparr>rcv_queue := ms\<rparr>))"

text \<open>
  Modelled from the spec: stand-ins for the FEC codec of \<^verbatim>\<open>fec.go\<close> (section 4.3). The
  decoder reads the header and yields the recovered shards it is scripted with, one list
  for each call; the encoder counts the data shards of a group and yields \<open>parity\<close>
  buffers when the group is complete. Neither exists unless both shard counts are
  positive.
\<close>

definition ref_newFECDecoder :: "int \<Rightarrow> int \<Rightarrow> int \<Rightarrow> bytes list list option" where
  "ref_newFECDecoder rxlimit dataShards parityShards =
     (if dataShards \<le> 0 \<or> parityShards \<le> 0 then None else Some [])"

definition ref_decodeBytes :: "bytes list list \<Rightarrow> bytes \<Rightarrow> fecPacket" where
  "ref_decodeBytes d b = \<lparr>seqid = u32_at 0 b, flag = u16_at 4 b, pkt_data = drop 6 b\<rparr>"

definition ref_decode :: "fecPacket \<Rightarrow> bytes list list \<Rightarrow> bytes list \<times> bytes list list" where
  "ref_decode f d = (case d of [] \<Rightarrow> ([], []) | r # rs \<Rightarrow> (r, rs))"

definition ref_newFECEncoder :: "int \<Rightarrow> int \<Rightarrow> int \<Rightarrow> (nat \<times> nat \<times> nat) option" where
  "ref_newFECEncoder dataShards parityShards offset =
     (if dataShards \<le> 0 \<or> parityShards \<le> 0 then None
      else Some (nat dataShards, nat parityShards, 0))"

definition ref_encode :: "bytes \<Rightarrow> nat \<times> nat \<times> nat \<Rightarrow> (bytes \<times> bytes list) \<times> nat \<times> nat \<times> nat" where
  "ref_encode b e =
     (case e of (ds, ps, n) \<Rightarrow>
      if Suc n = ds then ((b, replicate ps (replicate (length b) 0)), (ds, ps, 0))
      else ((b, []), (ds, ps, Suc n)))"

text \<open>
  Stand-ins for what lies outside the repository: a nonce source that counts, a checksum
  that adds the bytes up (in the place of the IEEE CRC32), a packet connection that
  accepts every write, and a cipher that flips bits.
\<close>

definition ref_Fill :: "bytes \<Rightarrow> nat \<Rightarrow> bytes \<times> nat" where
  "ref_Fill b n = (replicate (length b) (of_nat n), Suc n)"

definition ref_ChecksumIEEE :: "bytes \<Rightarrow> 32 word" where
  "ref_ChecksumIEEE b = fold (\<lambda>x acc. acc + ucast x) b 0"

definition ref_WriteTo :: "bytes \<Rightarrow> Addr \<Rightarrow> nat \<Rightarrow> (int \<times> error option) \<times> nat" where
  "ref_WriteTo b a n = ((int (length b), None), Suc n)"

definition ref_conn_Close :: "nat \<Rightarrow> error option \<times> nat" where
  "ref_conn_Close n = (None, n)"

definition ref_block :: BlockCrypt where
  "ref_block = \<lparr>Encrypt = map (\<lambda>x. x XOR 0x5A), Decrypt = map (\<lambda>x. x XOR 0x5A)\<rparr>"

definition ref_deps :: "(ref_kcp, bytes list list, nat \<times> nat \<times> nat, nat, nat) deps" where
  "ref_deps =
     \<lparr>NewKCP = ref_NewKCP, SetMtu = ref_SetMtu, IKCP_MTU_DEF = 1400, WaitSnd = ref_WaitSnd,
      snd_wnd = k_snd_wnd, mss = k_mss, Send = ref_Send, flush = ref_flush, Input = ref_Input,
      PeekSize = ref_PeekSize, Recv = ref_Recv, newFECDecoder = ref_newFECDecoder,
      decodeBytes = ref_decodeBytes, decode = ref_decode, newFECEncoder = ref_newFECEncoder,
      encode = ref_encode, nonce_Init = 0, Fill = ref_Fill, ChecksumIEEE = ref_ChecksumIEEE,
      WriteTo = ref_WriteTo, conn_Close = ref_conn_Close\<rparr>"

definition snmp0 :: Snmp where
  "snmp0 =
     \<lparr>BytesSent = 0, BytesReceived = 0, MaxConn = 0, ActiveOpens = 0, PassiveOpens = 0,
      CurrEstab = 0, InErrs = 0, InCsumErrors = 0, KCPInErrors = 0, InPkts = 0, OutPkts = 0,
      InBytes = 0, OutBytes = 0, FECParityShards = 0, FECErrs = 0, FECRecovered = 0\<rparr>"

definition ctx0 :: "nat Ctx" where
  "ctx0 = \<lparr>snmp = snmp0, conn = 0, trace = []\<rparr>"

subsection \<open>Example inputs\<close>

text \<open>
  A client session without FEC and without a cipher, as \<^verbatim>\<open>newUDPSession\<close> builds it
  over the reference instance; the same session with one data shard and two parity shards
  for each group; and an ACK segment of conversation 7 (24 bytes, the KCP overhead).
\<close>

definition st_plain :: "(ref_kcp, bytes list list, nat \<times> nat \<times> nat, nat, nat) st" where
  "st_plain = newUDPSession ref_deps 7 0 0 None ''peer'' None ctx0"

definition st_fec :: "(ref_kcp, bytes list list, nat \<times> nat \<times> nat, nat, nat) st" where
  "st_fec = newUDPSession ref_deps 7 1 2 None ''peer'' None ctx0"

definition seg_ack :: bytes where
  "seg_ack = [7, 0, 0, 0, 82, 0, 0, 0, 0, 0, 0, 0, 0, 0, 0, 0, 0, 0, 0, 0, 0, 0, 0, 0]"

text \<open>\<^verbatim>\<open>SetDUP(dup)\<close>, and the trace or the number of writes that a run ends with.\<close>

definition SetDUP :: "64 word \<Rightarrow> ('k, 'd, 'e, 'n, 'c) st \<Rightarrow> ('k, 'd, 'e, 'n, 'c) st" where
  "SetDUP d st = (case st of (s, c) \<Rightarrow> (s\<lparr>dup := d\<rparr>, c))"

definition writes :: "call list \<Rightarrow> (bytes \<times> Addr) list" where
  "writes tr = concat (map (\<lambda>x. case x of Conn_WriteTo b a \<Rightarrow> [(b, a)] | _ \<Rightarrow> []) tr)"

definition ctx_after :: "('c Ctx \<Rightarrow> 'a) \<Rightarrow> panic + ('k, 'd, 'e, 'n, 'c) st \<Rightarrow> 'a option" where
  "ctx_after f r = (case r of Inl p \<Rightarrow> None | Inr (s, c) \<Rightarrow> Some (f c))"

definition writes_after :: "panic + ('k, 'd, 'e, 'n, 'c) st \<Rightarrow> (bytes \<times> Addr) list option" where
  "writes_after r = ctx_after (\<lambda>c. writes (trace c)) r"

text \<open>
  A session with FEC whose decoder is about to recover the given shards, and a parity
  datagram as it reaches \<^verbatim>\<open>kcpInput\<close>: sequence number 1, flag \<open>typeFEC\<close>, 26 more bytes.
\<close>

definition with_recovered :: "bytes list \<Rightarrow> ('k, bytes list list, 'e, 'n, 'c) st
    \<Rightarrow> ('k, bytes list list, 'e, 'n, 'c) st" where
  "with_recovered rs st = (case st of (s, c) \<Rightarrow> (s\<lparr>fecDecoder := Some [rs]\<rparr>, c))"

definition parity_pkt :: bytes where
  "parity_pkt = [1, 0, 0, 0, 0xF2, 0] @ replicate 26 0"

subsection \<open>Notions the properties are stated with\<close>

text \<open>
  What a run of the output callback may change: of the session, the extended buffer, the
  FEC encoder and the nonce source; of the surroundings, the connection, the counters
  \<open>OutPkts\<close> and \<open>OutBytes\<close>, and the trace, which grows by writes to the connection.
\<close>

definition is_write :: "call \<Rightarrow> bool" where
  "is_write x = (case x of Conn_WriteTo b a \<Rightarrow> True | _ \<Rightarrow> False)"

definition egress_frame :: "('k, 'd, 'e, 'n, 'c) st \<Rightarrow> ('k, 'd, 'e, 'n, 'c) st \<Rightarrow> bool" where
  "egress_frame st st' =
     (case st of (s, c) \<Rightarrow> case st' of (s', c') \<Rightarrow>
        (\<exists>e x n. s' = s\<lparr>ext := e, fecEncoder := x, nonce := n\<rparr>) \<and>
        (\<exists>cn ws p q. list_all is_write ws \<and>
           c' = c\<lparr>conn := cn, trace := trace c @ ws,
                  snmp := (snmp c)\<lparr>OutPkts := p, OutBytes := q\<rparr>\<rparr>))"

text \<open>
  The length that a recovered shard carries in its first two bytes, low byte first as
  \<^verbatim>\<open>binary.LittleEndian.Uint16\<close> reads it; the same two bytes read high byte first, as
  the specification words it; and the shards whose length fits: at least the two bytes of
  the prefix, at most the shard.
\<close>

definition embedded_length :: "bytes \<Rightarrow> nat" where
  "embedded_length r = unat (r ! 0) + 256 * unat (r ! 1)"

definition embedded_length_be :: "bytes \<Rightarrow> nat" where
  "embedded_length_be r = 256 * unat (r ! 0) + unat (r ! 1)"

definition consistent :: "bytes \<Rightarrow> bool" where
  "consistent r = (2 \<le> length r \<and> 2 \<le> embedded_length r \<and> embedded_length r \<le> length r)"

definition recovered_inputs :: "call list \<Rightarrow> call list" where
  "recovered_inputs tr = filter (\<lambda>x. case x of KCP_Input b regular a \<Rightarrow> \<not> regular | _ \<Rightarrow> False) tr"

text \<open>
  What one pass of the ingress may change besides: the KCP core.
\<close>

definition ingress_frame :: "('k, 'd, 'e, 'n, 'c) st \<Rightarrow> ('k, 'd, 'e, 'n, 'c) st \<Rightarrow> bool" where
  "ingress_frame st st' =
     (case st of (s, c) \<Rightarrow> case st' of (s', c') \<Rightarrow>
        (\<exists>k e x n. s' = s\<lparr>kcp := k, ext := e, fecEncoder := x, nonce := n\<rparr>) \<and>
        (\<exists>cn tr p q. c' = c\<lparr>conn := cn, trace := tr,
                            snmp := (snmp c)\<lparr>OutPkts := p, OutBytes := q\<rparr>\<rparr>))"

text \<open>
  A client session and a listener with the bit-flipping cipher, and a datagram as the
  receiver hands it on: the ACK segment behind a nonce of zeros and the checksum field
  \<open>crc\<close>, all of it encrypted. The checksum of the reference instance over the segment
  is 89.
\<close>

definition st_crypt :: "(ref_kcp, bytes list list, nat \<times> nat \<times> nat, nat, nat) st" where
  "st_crypt = newUDPSession ref_deps 7 0 0 None ''peer'' (Some ref_block) ctx0"

definition w_crypt :: "(ref_kcp, bytes list list, nat \<times> nat \<times> nat, nat, nat) World" where
  "w_crypt = ServeConn ref_deps (Some ref_block) 0 0 ctx0"

definition sealed_pkt :: "32 word \<Rightarrow> bytes" where
  "sealed_pkt crc = map (\<lambda>x. x XOR 0x5A) (replicate 16 0 @ le32 crc @ seg_ack)"

text \<open>
  A PUSH segment of conversation 7 with the two bytes 41 42; the client session after this
  segment has come in (an ack is pending and the message is ready); the session after a
  \<^verbatim>\<open>Read\<close> into a buffer of one byte, which leaves the byte 42 behind in \<^verbatim>\<open>bufptr\<close>; and
  the session after the \<^verbatim>\<open>Close\<close> that follows.
\<close>

definition push_pkt :: bytes where
  "push_pkt = [7, 0, 0, 0, 81, 0, 0, 0, 0, 0, 0, 0, 0, 0, 0, 0, 0, 0, 0, 0, 2, 0, 0, 0, 0x41, 0x42]"

definition st_acked :: "(ref_kcp, bytes list list, nat \<times> nat \<times> nat, nat, nat) st" where
  "st_acked = projr (readLoop_packet ref_deps push_pkt st_plain)"

definition st_short_read :: "(ref_kcp, bytes list list, nat \<times> nat \<times> nat, nat, nat) st" where
  "st_short_read = snd (the (Read ref_deps [] 0 [0] st_acked))"

definition st_closed :: "(ref_kcp, bytes list list, nat \<times> nat \<times> nat, nat, nat) st" where
  "st_closed = snd (Close ref_deps st_short_read)"

text \<open>
  The pieces of at most \<open>m\<close> bytes that a buffer is cut into, every piece but the last of
  exactly \<open>m\<close> bytes: the fragments of the specification, for \<open>m\<close> > 0. An empty buffer is
  one empty piece.
\<close>

function fragments :: "nat \<Rightarrow> bytes \<Rightarrow> bytes list" where
  "fragments m b = (if m = 0 \<or> length b \<le> m then [b] else take m b # fragments m (drop m b))"
  by pat_completeness auto
termination
  by (relation "measure (\<lambda>(m, b). length b)") auto

text \<open>
  The client session with a segment size of 2 bytes and a send window of one segment (as
  after \<^verbatim>\<open>SetMtu\<close> and \<^verbatim>\<open>SetWindowSize\<close>); the same with one segment waiting, so that the
  window is saturated, and a write deadline at time 5; and what a \<^verbatim>\<open>Write\<close> returns,
  without the state.
\<close>

definition st_small :: "(ref_kcp, bytes list list, nat \<times> nat \<times> nat, nat, nat) st" where
  "st_small = (case st_plain of (s, c) \<Rightarrow> (s\<lparr>kcp := (kcp s)\<lparr>k_mss := 2, k_snd_wnd := 1\<rparr>\<rparr>, c))"

definition st_full :: "(ref_kcp, bytes list list, nat \<times> nat \<times> nat, nat, nat) st" where
  "st_full = (case st_small of (s, c) \<Rightarrow> (s\<lparr>kcp := (kcp s)\<lparr>snd_buf := [[9]]\<rparr>, wd := 5\<rparr>, c))"

definition returned :: "(panic + 'r \<times> 'st) option \<Rightarrow> 'r option" where
  "returned x = (case x of Some (Inr (r, st)) \<Rightarrow> Some r | _ \<Rightarrow> None)"

definition state_after :: "(panic + 'r \<times> 'st) option \<Rightarrow> 'st option" where
  "state_after x = (case x of Some (Inr (r, st)) \<Rightarrow> Some st | _ \<Rightarrow> None)"




text \<open>A trace that continues another.\<close>

definition extends :: "call list \<Rightarrow> call list \<Rightarrow> bool" where
  "extends tr tr' = (\<exists>rest. tr' = tr @ rest)"

text \<open>
  A listener with FEC (one data shard, two parity shards) and without a cipher, and a data
  shard as the receiver hands it on: sequence number 1, flag \<open>typeData\<close>, the length
  prefix, and the ACK segment of conversation 7.
\<close>

definition w_fec :: "(ref_kcp, bytes list list, nat \<times> nat \<times> nat, nat, nat) World" where
  "w_fec = ServeConn ref_deps None 1 2 ctx0"

definition data_pkt :: bytes where
  "data_pkt = [1, 0, 0, 0, 0xF1, 0, 26, 0] @ seg_ack"

section \<open>Properties\<close>

subsection \<open>Egress\<close>

lemma kcp_outputs_filter:
  "kcp_outputs D outs st = kcp_outputs D (filter (\<lambda>(b, n). IKCP_OVERHEAD \<le> n) outs) st"
proof (induction outs arbitrary: st)
  case Nil
  show ?case by simp
next
  case (Cons bs rest)
  obtain b n where bs: "bs = (b, n)" by (cases bs)
  show ?case
  proof (cases "IKCP_OVERHEAD \<le> n")
    case True
    then show ?thesis using Cons.IH by (simp add: bs split: sum.splits)
  next
    case False
    then have "kcp_output D bs st = Inr st" by (simp add: bs kcp_output_def)
    then show ?thesis using False Cons.IH by (simp add: bs)
  qed
qed

text \<open>
  C8. The callback that the session gives to the KCP core runs \<^verbatim>\<open>output\<close> only on a
  buffer of at least \<open>IKCP_OVERHEAD\<close> = 24 bytes. A shorter one leaves the session, the
  connection, the counters and the trace as they were: no datagram is written. Over the
  buffers of one call of the core, only those of 24 bytes or more count.
\<close>

theorem kcp_output_guard:
  "(sz < IKCP_OVERHEAD \<longrightarrow> kcp_output D (buf, sz) st = Inr st) \<and>
   (IKCP_OVERHEAD \<le> sz \<and> sz \<le> int (length buf) \<longrightarrow>
      kcp_output D (buf, sz) st = output D (take (nat sz) buf) st) \<and>
   kcp_outputs D outs st = kcp_outputs D (filter (\<lambda>(b, n). IKCP_OVERHEAD \<le> n) outs) st"
proof (intro conjI impI)
  assume "sz < IKCP_OVERHEAD"
  then show "kcp_output D (buf, sz) st = Inr st" by (simp add: kcp_output_def)
next
  assume "IKCP_OVERHEAD \<le> sz \<and> sz \<le> int (length buf)"
  then show "kcp_output D (buf, sz) st = output D (take (nat sz) buf) st"
    by (simp add: kcp_output_def slice_to_def IKCP_OVERHEAD_def)
next
  show "kcp_outputs D outs st = kcp_outputs D (filter (\<lambda>(b, n). IKCP_OVERHEAD \<le> n) outs) st"
    by (rule kcp_outputs_filter)
qed

theorem kcp_output_guard_witness:
  "(23 :: int) < IKCP_OVERHEAD \<and> kcp_output ref_deps (seg_ack, 23) st_plain = Inr st_plain \<and>
   IKCP_OVERHEAD \<le> 24 \<and> (24 :: int) \<le> int (length seg_ack) \<and>
   kcp_output ref_deps (seg_ack, 24) st_plain = output ref_deps seg_ack st_plain \<and>
   kcp_outputs ref_deps [(seg_ack, 23), (seg_ack, 24)] st_plain
     = kcp_outputs ref_deps [(seg_ack, 24)] st_plain"
  using kcp_output_guard [of 23 ref_deps seg_ack st_plain "[(seg_ack, 23), (seg_ack, 24)]"]
        kcp_output_guard [of 24 ref_deps seg_ack st_plain "[]"]
  by (simp add: IKCP_OVERHEAD_def seg_ack_def)

lemma write_to_trace:
  "write_to D a b (cn, nb, np, tr) = (cn', nb', np', tr') \<Longrightarrow> tr' = tr @ [Conn_WriteTo b a]"
  by (auto simp: write_to_def split: prod.splits option.splits)

lemma write_to_funpow_trace:
  "((write_to D a b) ^^ n) (cn, nb, np, tr) = (cn', nb', np', tr')
     \<Longrightarrow> tr' = tr @ replicate n (Conn_WriteTo b a)"
proof (induction n arbitrary: cn' nb' np' tr')
  case 0
  then show ?case by simp
next
  case (Suc n)
  obtain cn1 nb1 np1 tr1 where mid: "((write_to D a b) ^^ n) (cn, nb, np, tr) = (cn1, nb1, np1, tr1)"
    by (metis prod_cases4)
  from Suc.IH [OF mid] have t1: "tr1 = tr @ replicate n (Conn_WriteTo b a)" .
  from Suc.prems mid have "write_to D a b (cn1, nb1, np1, tr1) = (cn', nb', np', tr')" by simp
  from write_to_trace [OF this] t1 show ?case by (simp add: replicate_append_same)
qed

lemma write_to_fold_trace:
  "fold (write_to D a) bs (cn, nb, np, tr) = (cn', nb', np', tr')
     \<Longrightarrow> tr' = tr @ map (\<lambda>p. Conn_WriteTo p a) bs"
proof (induction bs arbitrary: cn nb np tr)
  case Nil
  then show ?case by simp
next
  case (Cons b bs)
  obtain cn1 nb1 np1 tr1 where one: "write_to D a b (cn, nb, np, tr) = (cn1, nb1, np1, tr1)"
    by (metis prod_cases4)
  from Cons.prems one have "fold (write_to D a) bs (cn1, nb1, np1, tr1) = (cn', nb', np', tr')"
    by simp
  from Cons.IH [OF this] write_to_trace [OF one] show ?case by simp
qed

lemma seal_all_length: "seal_all D bc bs n = Inr (bs', n') \<Longrightarrow> length bs' = length bs"
  by (induction bs arbitrary: n bs' n') (auto split: sum.splits prod.splits)

lemma output_trace:
  assumes "output D buf (s, c) = Inr (s', c')"
  shows "\<exists>ext3 ecc. output_buffers D buf s = Inr (ext3, ecc, s') \<and>
           trace c' = trace c @ replicate (dup_rounds (dup s)) (Conn_WriteTo ext3 (remote s))
                        @ map (\<lambda>p. Conn_WriteTo p (remote s)) ecc"
proof -
  from assms obtain ext3 ecc where ob: "output_buffers D buf s = Inr (ext3, ecc, s')"
    by (auto simp: output_def Let_def split: sum.splits prod.splits)
  obtain cn1 nb1 np1 tr1 where
    a1: "((write_to D (remote s) ext3) ^^ dup_rounds (dup s)) (conn c, 0, 0, trace c) = (cn1, nb1, np1, tr1)"
    by (metis prod_cases4)
  obtain cn2 nb2 np2 tr2 where
    a2: "fold (write_to D (remote s)) ecc (cn1, nb1, np1, tr1) = (cn2, nb2, np2, tr2)"
    by (metis prod_cases4)
  from assms ob a1 a2 have "trace c' = tr2"
    by (auto simp: output_def Let_def)
  with write_to_funpow_trace [OF a1] write_to_fold_trace [OF a2] ob show ?thesis by simp
qed

lemma output_buffers_parity:
  assumes "output_buffers D buf s = Inr (ext3, ecc, s')"
  shows "\<exists>ext1 ecc1 enc1. output_encode D buf s = Inr (ext1, ecc1, enc1) \<and> length ecc = length ecc1"
  using assms
  by (auto simp: output_buffers_def split: sum.splits prod.splits option.splits
           dest: seal_all_length)

lemma dup_rounds_in_range:
  assumes "0 \<le> sint d" "sint d < 2 ^ 63 - 1"
  shows "dup_rounds (d :: 64 word) = nat (sint d) + 1"
proof -
  have "sint (d + 1) = signed_take_bit 63 (sint d + 1)"
    using sint_word_add [of d 1] by simp
  also have "\<dots> = sint d + 1"
    using assms by (intro signed_take_bit_int_eq_self) simp_all
  finally show ?thesis using assms by (simp add: dup_rounds_def nat_add_distrib)
qed

lemma output_plain:
  assumes "headerSize s = 0" "fecEncoder s = None" "block s = None"
  shows "output_buffers D buf s = Inr (buf, [], s)"
  using assms by (simp add: output_buffers_def output_encode_def)

lemma output_returns:
  assumes "output_buffers D buf s = Inr (ext3, ecc, s')"
  shows "\<exists>c'. output D buf (s, c) = Inr (s', c')"
  using assms by (simp add: output_def Let_def split: prod.splits)

text \<open>
  C9, as amended. With \<^verbatim>\<open>dup\<close> = d, 0 \<le> d < 2^63 - 1, one run of \<^verbatim>\<open>output\<close> calls
  \<^verbatim>\<open>WriteTo\<close> d + 1 times with the data datagram and then once with each parity
  datagram, of which there are as many as the FEC encoder produced in this run.
\<close>

theorem output_write_counts:
  assumes "output D buf (s, c) = Inr (s', c')"
    and "0 \<le> sint (dup s)" and "sint (dup s) < 2 ^ 63 - 1"
  shows "\<exists>ext1 ecc1 enc1 ext3 ecc.
           output_encode D buf s = Inr (ext1, ecc1, enc1) \<and>
           output_buffers D buf s = Inr (ext3, ecc, s') \<and>
           length ecc = length ecc1 \<and>
           trace c' = trace c @ replicate (nat (sint (dup s)) + 1) (Conn_WriteTo ext3 (remote s))
                        @ map (\<lambda>p. Conn_WriteTo p (remote s)) ecc"
proof -
  from output_trace [OF assms(1)] obtain ext3 ecc where
    ob: "output_buffers D buf s = Inr (ext3, ecc, s')" and
    tr: "trace c' = trace c @ replicate (dup_rounds (dup s)) (Conn_WriteTo ext3 (remote s))
                      @ map (\<lambda>p. Conn_WriteTo p (remote s)) ecc"
    by blast
  from output_buffers_parity [OF ob] obtain ext1 ecc1 enc1 where
    oe: "output_encode D buf s = Inr (ext1, ecc1, enc1)" and len: "length ecc = length ecc1"
    by blast
  from tr dup_rounds_in_range [OF assms(2,3)] ob oe len show ?thesis by simp
qed

lemmas ref_simps = ref_deps_def ref_NewKCP_def ref_SetMtu_def ref_WaitSnd_def ref_Send_def
  ref_flush_def ref_Input_def ref_PeekSize_def ref_Recv_def ref_newFECDecoder_def
  ref_decodeBytes_def ref_decode_def ref_newFECEncoder_def ref_encode_def ref_Fill_def
  ref_ChecksumIEEE_def ref_WriteTo_def ref_conn_Close_def ref_block_def snmp0_def ctx0_def

lemma writes_append: "writes (xs @ ys) = writes xs @ writes ys"
  by (simp add: writes_def)

lemma writes_replicate: "length (writes (replicate n (Conn_WriteTo b a))) = n"
  by (induction n) (simp_all add: writes_def)

lemma writes_WriteTo: "writes (Conn_WriteTo b a # tr) = (b, a) # writes tr"
  by (simp add: writes_def)

lemma writes_map: "length (writes (map (\<lambda>p. Conn_WriteTo p a) bs)) = length bs"
  by (induction bs) (simp_all add: writes_def)

lemma enc_fec: "\<exists>ext1 enc1. output_encode ref_deps seg_ack (fst (SetDUP 1 st_fec))
   = Inr (ext1, [replicate 32 0, replicate 32 0], enc1)"
  apply (simp add: st_fec_def SetDUP_def newUDPSession_def output_encode_def ref_simps Let_def slice_to_def
     seg_ack_def fecHeaderSizePlus2_def mtuLimit_def copy_into_def eval_nat_numeral)
  done

text \<open>
  C9 as stated fails at the largest \<^verbatim>\<open>int\<close>: after \<^verbatim>\<open>SetDUP(math.MaxInt64)\<close> the bound
  \<^verbatim>\<open>s.dup+1\<close> of the loop wraps around to the smallest \<^verbatim>\<open>int\<close>, the loop body never runs
  and the data datagram is not written at all.
\<close>

theorem output_dup_max_counterexample:
  "0 \<le> sint (0x7FFFFFFFFFFFFFFF :: 64 word) \<and>
   writes_after (output ref_deps seg_ack (SetDUP 0x7FFFFFFFFFFFFFFF st_plain)) = Some []"
  by (simp add: st_plain_def SetDUP_def newUDPSession_def output_def output_buffers_def output_encode_def
      ref_simps Let_def dup_rounds_def writes_after_def ctx_after_def writes_def)


lemma buffers_fec: "\<exists>ext3 ecc s'. output_buffers ref_deps seg_ack (fst (SetDUP 1 st_fec)) = Inr (ext3, ecc, s')"
  by (simp add: st_fec_def SetDUP_def newUDPSession_def output_buffers_def output_encode_def ref_simps
     Let_def slice_to_def seg_ack_def fecHeaderSizePlus2_def mtuLimit_def copy_into_def)

theorem output_write_counts_witness:
  "0 \<le> sint (dup (fst (SetDUP 1 st_fec))) \<and> sint (dup (fst (SetDUP 1 st_fec))) < 2 ^ 63 - 1 \<and>
   map_option length (writes_after (output ref_deps seg_ack (SetDUP 1 st_fec))) = Some 4"
proof -
  obtain s c where st: "SetDUP 1 st_fec = (s, c)" by (cases "SetDUP 1 st_fec")
  have d: "dup s = 1" and tr0: "writes (trace c) = []"
    using st by (auto simp: SetDUP_def st_fec_def newUDPSession_def Let_def ctx0_def writes_def)
  from buffers_fec st obtain ext3 ecc s' where "output_buffers ref_deps seg_ack s = Inr (ext3, ecc, s')"
    by auto
  from output_returns [OF this] obtain c' where out: "output ref_deps seg_ack (s, c) = Inr (s', c')"
    by blast
  have r1: "0 \<le> sint (dup s)" and r2: "sint (dup s) < 2 ^ 63 - 1" by (simp_all add: d)
  from output_write_counts [OF out r1 r2] obtain ext1 ecc1 enc1 ext3' ecc' where
    oe: "output_encode ref_deps seg_ack s = Inr (ext1, ecc1, enc1)" and
    len: "length ecc' = length ecc1" and
    tr: "trace c' = trace c @ replicate (nat (sint (dup s)) + 1) (Conn_WriteTo ext3' (remote s))
                      @ map (\<lambda>p. Conn_WriteTo p (remote s)) ecc'"
    by blast
  from enc_fec st oe have "length ecc1 = 2" by auto
  with len tr tr0 d have "length (writes (trace c')) = 4"
    by (simp add: writes_append writes_WriteTo writes_map)
  with out st r1 r2 show ?thesis by (simp add: writes_after_def ctx_after_def)
qed

lemma egress_frame_refl: "egress_frame st st"
proof -
  obtain s c where "st = (s, c)" by (cases st)
  moreover have "\<exists>e x n. s = s\<lparr>ext := e, fecEncoder := x, nonce := n\<rparr>"
    by (rule exI [of _ "ext s"], rule exI [of _ "fecEncoder s"], rule exI [of _ "nonce s"]) simp
  moreover have "\<exists>cn ws p q. list_all is_write ws \<and>
           c = c\<lparr>conn := cn, trace := trace c @ ws, snmp := (snmp c)\<lparr>OutPkts := p, OutBytes := q\<rparr>\<rparr>"
    by (rule exI [of _ "conn c"], rule exI [of _ "[]"], rule exI [of _ "OutPkts (snmp c)"],
        rule exI [of _ "OutBytes (snmp c)"]) simp
  ultimately show ?thesis by (simp add: egress_frame_def)
qed

lemma egress_frame_trans:
  assumes "egress_frame st st'" "egress_frame st' st''"
  shows "egress_frame st st''"
proof -
  obtain s c s' c' s'' c'' where eq: "st = (s, c)" "st' = (s', c')" "st'' = (s'', c'')"
    by (cases st, cases st', cases st'') auto
  from assms eq obtain e x n cn ws p q where
    1: "s' = s\<lparr>ext := e, fecEncoder := x, nonce := n\<rparr>" and
    2: "list_all is_write ws" and
    3: "c' = c\<lparr>conn := cn, trace := trace c @ ws, snmp := (snmp c)\<lparr>OutPkts := p, OutBytes := q\<rparr>\<rparr>"
    by (auto simp: egress_frame_def)
  from assms eq obtain e' x' n' cn' ws' p' q' where
    4: "s'' = s'\<lparr>ext := e', fecEncoder := x', nonce := n'\<rparr>" and
    5: "list_all is_write ws'" and
    6: "c'' = c'\<lparr>conn := cn', trace := trace c' @ ws', snmp := (snmp c')\<lparr>OutPkts := p', OutBytes := q'\<rparr>\<rparr>"
    by (auto simp: egress_frame_def)
  have "s'' = s\<lparr>ext := e', fecEncoder := x', nonce := n'\<rparr>" using 1 4 by simp
  moreover have "c'' = c\<lparr>conn := cn', trace := trace c @ (ws @ ws'),
       snmp := (snmp c)\<lparr>OutPkts := p', OutBytes := q'\<rparr>\<rparr>" using 3 6 by simp
  moreover have "list_all is_write (ws @ ws')" using 2 5 by simp
  ultimately show ?thesis unfolding egress_frame_def eq by (simp only: prod.case) blast
qed

lemma output_buffers_frame:
  "output_buffers D buf s = Inr (ext3, ecc, s') \<Longrightarrow> \<exists>e x n. s' = s\<lparr>ext := e, fecEncoder := x, nonce := n\<rparr>"
  by (auto simp: output_buffers_def split: sum.splits prod.splits)

lemma output_frame:
  assumes "output D buf st = Inr st'"
  shows "egress_frame st st'"
proof -
  obtain s c s' c' where eq: "st = (s, c)" "st' = (s', c')" by (cases st, cases st') auto
  from assms eq obtain ext3 ecc where ob: "output_buffers D buf s = Inr (ext3, ecc, s')"
    by (auto simp: output_def Let_def split: sum.splits prod.splits)
  obtain cn1 nb1 np1 tr1 where
    a1: "((write_to D (remote s) ext3) ^^ dup_rounds (dup s)) (conn c, 0, 0, trace c) = (cn1, nb1, np1, tr1)"
    by (metis prod_cases4)
  obtain cn2 nb2 np2 tr2 where
    a2: "fold (write_to D (remote s)) ecc (cn1, nb1, np1, tr1) = (cn2, nb2, np2, tr2)"
    by (metis prod_cases4)
  let ?ws = "replicate (dup_rounds (dup s)) (Conn_WriteTo ext3 (remote s))
                        @ map (\<lambda>p. Conn_WriteTo p (remote s)) ecc"
  have w: "list_all is_write ?ws" by (auto simp: list_all_iff is_write_def)
  have tr: "tr2 = trace c @ ?ws"
    using write_to_funpow_trace [OF a1] write_to_fold_trace [OF a2] by simp
  from assms eq ob a1 a2 have
    "c' = c\<lparr>conn := cn2, trace := tr2,
            snmp := (snmp c)\<lparr>OutPkts := OutPkts (snmp c) + word_of_int np2,
                              OutBytes := OutBytes (snmp c) + word_of_int nb2\<rparr>\<rparr>"
    by (simp add: output_def Let_def)
  with tr w have "\<exists>cn ws p q. list_all is_write ws \<and>
           c' = c\<lparr>conn := cn, trace := trace c @ ws, snmp := (snmp c)\<lparr>OutPkts := p, OutBytes := q\<rparr>\<rparr>"
    by blast
  with output_buffers_frame [OF ob] show ?thesis by (simp add: egress_frame_def eq)
qed

lemma kcp_output_frame: "kcp_output D bs st = Inr st' \<Longrightarrow> egress_frame st st'"
  by (cases bs) (auto simp: kcp_output_def egress_frame_refl split: if_splits sum.splits dest: output_frame)

lemma kcp_outputs_frame: "kcp_outputs D outs st = Inr st' \<Longrightarrow> egress_frame st st'"
proof (induction outs arbitrary: st)
  case Nil
  then show ?case by (simp add: egress_frame_refl)
next
  case (Cons bs rest)
  then obtain st1 where 1: "kcp_output D bs st = Inr st1" and 2: "kcp_outputs D rest st1 = Inr st'"
    by (auto split: sum.splits)
  from egress_frame_trans [OF kcp_output_frame [OF 1] Cons.IH [OF 2]] show ?case .
qed

subsection \<open>Ingress\<close>

lemma unat_byte_lt: "unat (a :: byte) < 256"
  using unsigned_less [of a, where 'a = nat] by simp

lemma unat_ucast_byte: fixes a :: byte shows "unat (ucast a :: 16 word) = unat a"
  using unat_byte_lt [of a] by (simp add: unsigned_ucast_eq take_bit_nat_eq_self)

lemma unat_push_bit_byte: fixes b :: byte shows "unat (push_bit 8 (ucast b :: 16 word)) = 256 * unat b"
proof -
  have "unat (ucast b :: 16 word) * unat (256 :: 16 word) < 2 ^ LENGTH(16)"
    using unat_byte_lt [of b] by (simp add: unat_ucast_byte)
  then have "unat ((ucast b :: 16 word) * 256) = unat (ucast b :: 16 word) * unat (256 :: 16 word)"
    by (simp only: unat_mult_lem [THEN iffD1])
  then show ?thesis by (simp add: push_bit_eq_mult unat_ucast_byte)
qed

lemma uint16_le:
  fixes a b :: byte
  shows "unat ((ucast a OR push_bit 8 (ucast b)) :: 16 word) = unat a + 256 * unat b"
proof -
  have disj: "(ucast a OR push_bit 8 (ucast b) :: 16 word) = ucast a + push_bit 8 (ucast b)"
    by (rule disjunctive_add_eq_or [symmetric], rule bit_eqI)
       (auto simp: bit_simps dest: bit_imp_le_length)
  have "unat (ucast a :: 16 word) + unat (push_bit 8 (ucast b :: 16 word)) < 2 ^ LENGTH(16)"
    using unat_byte_lt [of a] unat_byte_lt [of b] by (simp add: unat_ucast_byte unat_push_bit_byte)
  then have "unat (ucast a + push_bit 8 (ucast b) :: 16 word) = unat a + 256 * unat b"
    by (simp only: unat_add_lem [THEN iffD1] unat_ucast_byte unat_push_bit_byte)
  then show ?thesis by (simp only: disj)
qed

lemma Uint16_embedded: "2 \<le> length r \<Longrightarrow> \<exists>sz. Uint16 r = Inr sz \<and> unat sz = embedded_length r"
  by (simp add: Uint16_def embedded_length_def uint16_le)

lemma consistent_code:
  assumes "2 \<le> length r" "Uint16 r = Inr sz"
  shows "(uint sz \<le> int (length r) \<and> sz \<ge> 2) = consistent r"
proof -
  from Uint16_embedded [OF assms(1)] assms(2) have u: "unat sz = embedded_length r" by simp
  have a: "(2 \<le> sz) = (2 \<le> unat sz)" by (simp add: word_le_nat_alt)
  have b: "(uint sz \<le> int (length r)) = (unat sz \<le> length r)"
    by (metis uint_nat of_nat_le_iff)
  show ?thesis unfolding a b u consistent_def using assms(1) by blast
qed

lemma slice_payload:
  assumes "consistent r" "Uint16 r = Inr sz"
  shows "slice 2 (uint sz) r = Inr (drop 2 (take (embedded_length r) r))"
proof -
  from assms have l: "2 \<le> length r" by (simp add: consistent_def)
  from Uint16_embedded [OF l] assms(2) have u: "unat sz = embedded_length r" by simp
  have v: "uint sz = int (embedded_length r)" using uint_nat [of sz] u by (simp only:)
  have "2 \<le> int (embedded_length r)" "int (embedded_length r) \<le> int (length r)"
    using assms(1) by (simp_all add: consistent_def)
  then show ?thesis unfolding v by (simp add: slice_def)
qed

lemma egress_ingress: "egress_frame st st' \<Longrightarrow> ingress_frame st st'"
proof -
  assume a: "egress_frame st st'"
  obtain s c s' c' where eq: "st = (s, c)" "st' = (s', c')" by (cases st, cases st') auto
  from a eq obtain e x n cn ws p q where
    1: "s' = s\<lparr>ext := e, fecEncoder := x, nonce := n\<rparr>" and
    3: "c' = c\<lparr>conn := cn, trace := trace c @ ws, snmp := (snmp c)\<lparr>OutPkts := p, OutBytes := q\<rparr>\<rparr>"
    by (auto simp: egress_frame_def)
  have "s' = s\<lparr>kcp := kcp s, ext := e, fecEncoder := x, nonce := n\<rparr>" using 1 by simp
  with 3 show ?thesis unfolding ingress_frame_def eq by (simp only: prod.case) blast
qed

lemma ingress_frame_refl: "ingress_frame st st"
  by (rule egress_ingress, rule egress_frame_refl)

lemma ingress_frame_trans:
  assumes "ingress_frame st st'" "ingress_frame st' st''"
  shows "ingress_frame st st''"
proof -
  obtain s c s' c' s'' c'' where eq: "st = (s, c)" "st' = (s', c')" "st'' = (s'', c'')"
    by (cases st, cases st', cases st'') auto
  from assms eq obtain k e x n cn tr p q where
    1: "s' = s\<lparr>kcp := k, ext := e, fecEncoder := x, nonce := n\<rparr>" and
    3: "c' = c\<lparr>conn := cn, trace := tr, snmp := (snmp c)\<lparr>OutPkts := p, OutBytes := q\<rparr>\<rparr>"
    by (auto simp: ingress_frame_def)
  from assms eq obtain k' e' x' n' cn' tr' p' q' where
    4: "s'' = s'\<lparr>kcp := k', ext := e', fecEncoder := x', nonce := n'\<rparr>" and
    6: "c'' = c'\<lparr>conn := cn', trace := tr', snmp := (snmp c')\<lparr>OutPkts := p', OutBytes := q'\<rparr>\<rparr>"
    by (auto simp: ingress_frame_def)
  have "s'' = s\<lparr>kcp := k', ext := e', fecEncoder := x', nonce := n'\<rparr>" using 1 4 by simp
  moreover have "c'' = c\<lparr>conn := cn', trace := tr',
       snmp := (snmp c)\<lparr>OutPkts := p', OutBytes := q'\<rparr>\<rparr>" using 3 6 by simp
  ultimately show ?thesis unfolding ingress_frame_def eq by (simp only: prod.case) blast
qed

lemma ingress_frame_keeps:
  assumes "ingress_frame (s, c) (s', c')"
  shows "ackNoDelay s' = ackNoDelay s" "fecDecoder s' = fecDecoder s" "isClosed s' = isClosed s"
    "FECErrs (snmp c') = FECErrs (snmp c)" "InCsumErrors (snmp c') = InCsumErrors (snmp c)"
  using assms by (auto simp: ingress_frame_def)

lemma recovered_inputs_writes: "list_all is_write ws \<Longrightarrow> recovered_inputs ws = []"
  by (induction ws) (auto simp: recovered_inputs_def is_write_def split: call.splits)

lemma recovered_inputs_append: "recovered_inputs (xs @ ys) = recovered_inputs xs @ recovered_inputs ys"
  by (simp add: recovered_inputs_def)

lemma call_Input_effect:
  assumes "call_Input D b regular (s, c) = Inr (ret, (s', c'))"
  shows "ingress_frame (s, c) (s', c') \<and>
         (\<exists>ws. list_all is_write ws \<and> trace c' = trace c @ KCP_Input b regular (ackNoDelay s) # ws)"
proof -
  obtain r outs k' where i: "Input D b regular (ackNoDelay s) (kcp s) = (r, outs, k')"
    by (metis prod_cases3)
  let ?s1 = "s\<lparr>kcp := k'\<rparr>"
  let ?c1 = "c\<lparr>trace := trace c @ [KCP_Input b regular (ackNoDelay s)]\<rparr>"
  from assms i have o: "kcp_outputs D outs (?s1, ?c1) = Inr (s', c')"
    by (auto simp: call_Input_def split: sum.splits)
  from kcp_outputs_frame [OF o] obtain e x n cn ws p q where
    1: "s' = ?s1\<lparr>ext := e, fecEncoder := x, nonce := n\<rparr>" and
    2: "list_all is_write ws" and
    3: "c' = ?c1\<lparr>conn := cn, trace := trace ?c1 @ ws, snmp := (snmp ?c1)\<lparr>OutPkts := p, OutBytes := q\<rparr>\<rparr>"
    by (auto simp: egress_frame_def)
  have "s' = s\<lparr>kcp := k', ext := e, fecEncoder := x, nonce := n\<rparr>" using 1 by simp
  moreover have "c' = c\<lparr>conn := cn, trace := trace c @ KCP_Input b regular (ackNoDelay s) # ws,
      snmp := (snmp c)\<lparr>OutPkts := p, OutBytes := q\<rparr>\<rparr>" using 3 by simp
  ultimately have "ingress_frame (s, c) (s', c')" unfolding ingress_frame_def by (simp only: prod.case) blast
  moreover have "trace c' = trace c @ KCP_Input b regular (ackNoDelay s) # ws" using 3 by simp
  ultimately show ?thesis using 2 by blast
qed

lemma input_recovers_skip:
  "\<not> consistent r \<Longrightarrow>
     input_recovers D (r # rs) (st, k, f, g) = input_recovers D rs (st, k, f + 1, g)"
proof (cases "2 \<le> length r")
  case True
  assume n: "\<not> consistent r"
  from Uint16_embedded [OF True] obtain sz where sz: "Uint16 r = Inr sz" by blast
  from consistent_code [OF True sz] n have "\<not> (uint sz \<le> int (length r) \<and> sz \<ge> 2)" by simp
  with True sz show ?thesis by auto
next
  case False
  then show ?thesis by simp
qed

lemma input_recovers_pass:
  assumes "consistent r"
  shows "input_recovers D (r # rs) (st, k, f, g) =
          (case call_Input D (drop 2 (take (embedded_length r) r)) False st of
             Inl p \<Rightarrow> Inl p
           | Inr (ret, st') \<Rightarrow>
               input_recovers D rs (st', if ret = 0 then k else k + 1, f, if ret = 0 then g + 1 else g))"
proof -
  from assms have l: "2 \<le> length r" by (simp add: consistent_def)
  from Uint16_embedded [OF l] obtain sz where sz: "Uint16 r = Inr sz" by blast
  from consistent_code [OF l sz] assms have c: "uint sz \<le> int (length r) \<and> sz \<ge> 2" by simp
  from slice_payload [OF assms sz] l sz c show ?thesis
    by (simp split: sum.splits prod.splits)
qed

lemma input_recovers_effect:
  "input_recovers D rs ((s, c), k, f, g) = Inr ((s', c'), k', f', g') \<Longrightarrow>
     ingress_frame (s, c) (s', c') \<and>
     recovered_inputs (trace c') = recovered_inputs (trace c)
        @ map (\<lambda>r. KCP_Input (drop 2 (take (embedded_length r) r)) False (ackNoDelay s))
              (filter consistent rs) \<and>
     f' = f + of_nat (length (filter (\<lambda>r. \<not> consistent r) rs))"
proof (induction rs arbitrary: s c k f g)
  case Nil
  then show ?case by (simp add: ingress_frame_refl)
next
  case (Cons r rs)
  show ?case
  proof (cases "consistent r")
    case False
    with Cons.prems have "input_recovers D rs ((s, c), k, f + 1, g) = Inr ((s', c'), k', f', g')"
      by (simp only: input_recovers_skip [OF False])
    from Cons.IH [OF this] False show ?thesis by simp
  next
    case True
    let ?b = "drop 2 (take (embedded_length r) r)"
    from Cons.prems True obtain ret s1 c1 where
      ci: "call_Input D ?b False (s, c) = Inr (ret, (s1, c1))" and
      rest: "input_recovers D rs ((s1, c1), if ret = 0 then k else k + 1, f, if ret = 0 then g + 1 else g)
               = Inr ((s', c'), k', f', g')"
      by (simp only: input_recovers_pass [OF True]) (auto split: sum.splits prod.splits if_splits)
    from call_Input_effect [OF ci] obtain ws where
      fr: "ingress_frame (s, c) (s1, c1)" and w: "list_all is_write ws" and
      tr: "trace c1 = trace c @ KCP_Input ?b False (ackNoDelay s) # ws" by blast
    have ri: "recovered_inputs (trace c1) = recovered_inputs (trace c) @ [KCP_Input ?b False (ackNoDelay s)]"
      using recovered_inputs_writes [OF w] unfolding tr
      by (simp add: recovered_inputs_def)
    from Cons.IH [OF rest] ingress_frame_keeps(1) [OF fr] ri True
         ingress_frame_trans [OF fr] show ?thesis by simp
  qed
qed

lemma FECErrs_count_input:
  "FECErrs (count_input data0 ps k fe fr m) = FECErrs m + fe"
proof (cases "fe = 0")
  case True
  then show ?thesis by (simp add: count_input_def Let_def)
next
  case False
  then have "0 < fe" by (simp add: word_neq_0_conv)
  then show ?thesis by (simp add: count_input_def Let_def)
qed

lemma kcpInput_fec_parts:
  assumes dec: "fecDecoder s = Some d"
    and len: "length data0 > fecHeaderSize"
    and flg: "flag (decodeBytes D d data0) = typeData \<or> flag (decodeBytes D d data0) = typeFEC"
    and run: "kcpInput D data0 (s, c) = Inr (s', c')"
  shows "\<exists>s1 c1 k1 s2 c2 k fe fr.
           ingress_frame (s\<lparr>fecDecoder := Some (snd (decode D (decodeBytes D d data0) d))\<rparr>, c) (s1, c1) \<and>
           recovered_inputs (trace c1) = recovered_inputs (trace c) \<and>
           extends (trace c) (trace c1) \<and>
           input_recovers D (fst (decode D (decodeBytes D d data0) d)) ((s1, c1), k1, 0, 0)
             = Inr ((s2, c2), k, fe, fr) \<and>
           c' = c2\<lparr>snmp := count_input data0 (if flag (decodeBytes D d data0) = typeFEC then 1 else 0)
                                k fe fr (snmp c2)\<rparr> \<and>
           s' = notify_after_input D (WaitSnd D (kcp s)) s2"
proof -
  let ?f = "decodeBytes D d data0"
  obtain recovers d' where de: "decode D ?f d = (recovers, d')" by (cases "decode D ?f d")
  let ?s0 = "s\<lparr>fecDecoder := Some d'\<rparr>"
  have fd: "fst (decode D ?f d) = recovers" "snd (decode D ?f d) = d'" using de by simp_all
  show ?thesis
  proof (cases "flag ?f = typeData")
    case True
    from run dec len flg de True obtain b ret s1 c1 s2 c2 k fe fr where
      sl: "slice_from (int fecHeaderSizePlus2) data0 = Inr b" and
      ci: "call_Input D b True (?s0, c) = Inr (ret, (s1, c1))" and
      rec: "input_recovers D recovers ((s1, c1), if ret \<noteq> 0 then 1 else 0, 0, 0) = Inr ((s2, c2), k, fe, fr)" and
      fin: "c' = c2\<lparr>snmp := count_input data0 (if flag ?f = typeFEC then 1 else 0) k fe fr (snmp c2)\<rparr>" and
      fs: "s' = notify_after_input D (WaitSnd D (kcp s)) s2"
      by (auto simp: kcpInput_def Let_def split: sum.splits prod.splits if_splits)
    from call_Input_effect [OF ci] obtain ws where
      fr: "ingress_frame (?s0, c) (s1, c1)" and w: "list_all is_write ws" and
      tr: "trace c1 = trace c @ KCP_Input b True (ackNoDelay ?s0) # ws" by blast
    have "recovered_inputs (trace c1) = recovered_inputs (trace c)"
      using recovered_inputs_writes [OF w] unfolding tr by (simp add: recovered_inputs_def)
    moreover have "extends (trace c) (trace c1)" unfolding tr extends_def by blast
    ultimately show ?thesis using fr rec fin fs unfolding fd by blast
  next
    case False
    from run dec len flg de False obtain s2 c2 k fe fr where
      rec: "input_recovers D recovers ((?s0, c), 0, 0, 0) = Inr ((s2, c2), k, fe, fr)" and
      fin: "c' = c2\<lparr>snmp := count_input data0 (if flag ?f = typeFEC then 1 else 0) k fe fr (snmp c2)\<rparr>" and
      fs: "s' = notify_after_input D (WaitSnd D (kcp s)) s2"
      by (auto simp: kcpInput_def Let_def split: sum.splits prod.splits if_splits)
    moreover have "extends (trace c) (trace c)" by (simp add: extends_def)
    ultimately show ?thesis using ingress_frame_refl [of "(?s0, c)"] fs unfolding fd by blast
  qed
qed

lemma kcpInput_fec_effect:
  assumes dec: "fecDecoder s = Some d"
    and len: "length data0 > fecHeaderSize"
    and flg: "flag (decodeBytes D d data0) = typeData \<or> flag (decodeBytes D d data0) = typeFEC"
    and run: "kcpInput D data0 (s, c) = Inr (s', c')"
  shows "recovered_inputs (trace c') = recovered_inputs (trace c)
           @ map (\<lambda>r. KCP_Input (drop 2 (take (embedded_length r) r)) False (ackNoDelay s))
                 (filter consistent (fst (decode D (decodeBytes D d data0) d)))"
    and "FECErrs (snmp c') = FECErrs (snmp c)
           + of_nat (length (filter (\<lambda>r. \<not> consistent r) (fst (decode D (decodeBytes D d data0) d))))"
proof -
  let ?s0 = "s\<lparr>fecDecoder := Some (snd (decode D (decodeBytes D d data0) d))\<rparr>"
  from kcpInput_fec_parts [OF assms] obtain s1 c1 k1 s2 c2 k fe fr where
    fr1: "ingress_frame (?s0, c) (s1, c1)" and
    ri1: "recovered_inputs (trace c1) = recovered_inputs (trace c)" and
    rec: "input_recovers D (fst (decode D (decodeBytes D d data0) d)) ((s1, c1), k1, 0, 0)
             = Inr ((s2, c2), k, fe, fr)" and
    fin: "c' = c2\<lparr>snmp := count_input data0 (if flag (decodeBytes D d data0) = typeFEC then 1 else 0)
                                k fe fr (snmp c2)\<rparr>"
    by blast
  from input_recovers_effect [OF rec] have
    fr2: "ingress_frame (s1, c1) (s2, c2)" and
    ri2: "recovered_inputs (trace c2) = recovered_inputs (trace c1)
        @ map (\<lambda>r. KCP_Input (drop 2 (take (embedded_length r) r)) False (ackNoDelay s1))
              (filter consistent (fst (decode D (decodeBytes D d data0) d)))" and
    fe: "fe = 0 + of_nat (length (filter (\<lambda>r. \<not> consistent r) (fst (decode D (decodeBytes D d data0) d))))"
    by blast+
  have a: "ackNoDelay s1 = ackNoDelay s" using ingress_frame_keeps(1) [OF fr1] by simp
  have "FECErrs (snmp c2) = FECErrs (snmp c)"
    using ingress_frame_keeps(4) [OF fr1] ingress_frame_keeps(4) [OF fr2] by simp
  then show "FECErrs (snmp c') = FECErrs (snmp c)
           + of_nat (length (filter (\<lambda>r. \<not> consistent r) (fst (decode D (decodeBytes D d data0) d))))"
    using fin fe by (simp add: FECErrs_count_input)
  show "recovered_inputs (trace c') = recovered_inputs (trace c)
           @ map (\<lambda>r. KCP_Input (drop 2 (take (embedded_length r) r)) False (ackNoDelay s))
                 (filter consistent (fst (decode D (decodeBytes D d data0) d)))"
    using fin ri1 ri2 a by simp
qed

text \<open>
  C4, as amended. The first two bytes of a recovered shard are read low byte first
  (\<^verbatim>\<open>binary.LittleEndian.Uint16\<close>) as a length \<open>sz\<close> that counts the two bytes themselves.
  When the length is consistent with the shard, \<^verbatim>\<open>kcpInput\<close> hands \<^verbatim>\<open>r[2:sz]\<close> to
  \<^verbatim>\<open>KCP.Input\<close> with \<^verbatim>\<open>regular = false\<close>; over one datagram, the inputs with
  \<^verbatim>\<open>regular = false\<close> are exactly these, in the order of the shards.
\<close>

theorem recovered_shard_input:
  "(consistent r \<longrightarrow>
      input_recovers D (r # rs) (st, k, f, g) =
        (case call_Input D (drop 2 (take (embedded_length r) r)) False st of
           Inl p \<Rightarrow> Inl p
         | Inr (ret, st') \<Rightarrow>
             input_recovers D rs (st', if ret = 0 then k else k + 1, f, if ret = 0 then g + 1 else g))) \<and>
   (fecDecoder s = Some d \<and> length data0 > fecHeaderSize \<and>
    (flag (decodeBytes D d data0) = typeData \<or> flag (decodeBytes D d data0) = typeFEC) \<and>
    kcpInput D data0 (s, c) = Inr (s', c') \<longrightarrow>
      recovered_inputs (trace c') = recovered_inputs (trace c)
        @ map (\<lambda>r. KCP_Input (drop 2 (take (embedded_length r) r)) False (ackNoDelay s))
              (filter consistent (fst (decode D (decodeBytes D d data0) d))))"
  using input_recovers_pass [of r D rs st k f g] kcpInput_fec_effect(1) [of s d data0 D c s' c']
  by blast

text \<open>
  C5. A recovered shard that is shorter than two bytes, or whose embedded length is below 2
  or above the length of the shard, is skipped: nothing is passed to \<^verbatim>\<open>KCP.Input\<close>, nothing
  changes but the local count \<^verbatim>\<open>fecErrs\<close>, which grows by one. Over one datagram the
  counter \<open>FECErrs\<close> grows by the number of such shards, and the inputs with
  \<^verbatim>\<open>regular = false\<close> are as many as the other shards.
\<close>

theorem inconsistent_shard_dropped:
  "(\<not> consistent r \<longrightarrow>
      input_recovers D (r # rs) (st, k, f, g) = input_recovers D rs (st, k, f + 1, g)) \<and>
   (fecDecoder s = Some d \<and> length data0 > fecHeaderSize \<and>
    (flag (decodeBytes D d data0) = typeData \<or> flag (decodeBytes D d data0) = typeFEC) \<and>
    kcpInput D data0 (s, c) = Inr (s', c') \<longrightarrow>
      FECErrs (snmp c') = FECErrs (snmp c)
        + of_nat (length (filter (\<lambda>r. \<not> consistent r) (fst (decode D (decodeBytes D d data0) d)))) \<and>
      length (recovered_inputs (trace c')) = length (recovered_inputs (trace c))
        + length (filter consistent (fst (decode D (decodeBytes D d data0) d))))"
proof (intro conjI impI)
  assume "\<not> consistent r"
  then show "input_recovers D (r # rs) (st, k, f, g) = input_recovers D rs (st, k, f + 1, g)"
    by (rule input_recovers_skip)
next
  assume a: "fecDecoder s = Some d \<and> length data0 > fecHeaderSize \<and>
    (flag (decodeBytes D d data0) = typeData \<or> flag (decodeBytes D d data0) = typeFEC) \<and>
    kcpInput D data0 (s, c) = Inr (s', c')"
  then show "FECErrs (snmp c') = FECErrs (snmp c)
        + of_nat (length (filter (\<lambda>r. \<not> consistent r) (fst (decode D (decodeBytes D d data0) d))))"
    using kcpInput_fec_effect(2) [of s d data0 D c s' c'] by blast
  from a have "recovered_inputs (trace c') = recovered_inputs (trace c)
        @ map (\<lambda>r. KCP_Input (drop 2 (take (embedded_length r) r)) False (ackNoDelay s))
              (filter consistent (fst (decode D (decodeBytes D d data0) d)))"
    using kcpInput_fec_effect(1) [of s d data0 D c s' c'] by blast
  then show "length (recovered_inputs (trace c')) = length (recovered_inputs (trace c))
        + length (filter consistent (fst (decode D (decodeBytes D d data0) d)))"
    by simp
qed

lemmas eval_simps = st_fec_def st_plain_def with_recovered_def parity_pkt_def newUDPSession_def
  kcpInput_def call_Input_def Let_def ref_simps fecHeaderSize_def fecHeaderSizePlus2_def
  typeData_def typeFEC_def u16_at_def u32_at_def Uint16_def Uint32_def slice_def slice_from_def
  slice_to_def count_input_def notify_after_input_def notifyReadEvent_def notifyWriteEvent_def
  cryptHeaderSize_def nonceSize_def crcSize_def ctx_after_def recovered_inputs_def

theorem recovered_shard_input_witness:
  "consistent [3, 0, 0xAA] \<and>
   ctx_after (\<lambda>c. recovered_inputs (trace c))
     (kcpInput ref_deps parity_pkt (with_recovered [[3, 0, 0xAA], [0, 3, 0xAA], [5]] st_fec))
      = Some [KCP_Input [0xAA] False False]"
  using recovered_shard_input [where r = "[3, 0, 0xAA]" and D = ref_deps and rs = "[]"
      and st = "with_recovered [] st_fec" and k = 0 and f = 0 and g = 0
      and s = "fst (with_recovered [[3, 0, 0xAA], [0, 3, 0xAA], [5]] st_fec)"
      and c = "snd (with_recovered [[3, 0, 0xAA], [0, 3, 0xAA], [5]] st_fec)"
      and d = "[[[3, 0, 0xAA], [0, 3, 0xAA], [5]]]" and ?data0.0 = parity_pkt
      and s' = "fst (projr (kcpInput ref_deps parity_pkt
                   (with_recovered [[3, 0, 0xAA], [0, 3, 0xAA], [5]] st_fec)))"
      and c' = "snd (projr (kcpInput ref_deps parity_pkt
                   (with_recovered [[3, 0, 0xAA], [0, 3, 0xAA], [5]] st_fec)))"]
  by (simp add: eval_simps consistent_def embedded_length_def)

text \<open>
  C4 as stated fails: the shard 00 03 AA carries the length 3 when read high byte first,
  and the byte AA would go to \<^verbatim>\<open>KCP.Input\<close>. The code reads 0x0300 = 768, finds it longer
  than the shard, passes nothing on and counts the shard under \<open>FECErrs\<close>.
\<close>

theorem recovered_shard_big_endian_counterexample:
  "embedded_length_be [0, 3, 0xAA] = 3 \<and>
   ctx_after (\<lambda>c. recovered_inputs (trace c))
     (kcpInput ref_deps parity_pkt (with_recovered [[0, 3, 0xAA]] st_fec)) = Some [] \<and>
   ctx_after (\<lambda>c. FECErrs (snmp c))
     (kcpInput ref_deps parity_pkt (with_recovered [[0, 3, 0xAA]] st_fec)) = Some 1"
  by (simp add: eval_simps embedded_length_be_def)

theorem inconsistent_shard_dropped_witness:
  "\<not> consistent [5] \<and> \<not> consistent [0, 3, 0xAA] \<and>
   ctx_after (\<lambda>c. FECErrs (snmp c))
     (kcpInput ref_deps parity_pkt (with_recovered [[3, 0, 0xAA], [0, 3, 0xAA], [5]] st_fec)) = Some 2 \<and>
   ctx_after (\<lambda>c. length (recovered_inputs (trace c)))
     (kcpInput ref_deps parity_pkt (with_recovered [[3, 0, 0xAA], [0, 3, 0xAA], [5]] st_fec)) = Some 1"
  using inconsistent_shard_dropped [where r = "[5]" and D = ref_deps and rs = "[]"
      and st = "with_recovered [] st_fec" and k = 0 and f = 0 and g = 0
      and s = "fst (with_recovered [[3, 0, 0xAA], [0, 3, 0xAA], [5]] st_fec)"
      and c = "snd (with_recovered [[3, 0, 0xAA], [0, 3, 0xAA], [5]] st_fec)"
      and d = "[[[3, 0, 0xAA], [0, 3, 0xAA], [5]]]" and ?data0.0 = parity_pkt
      and s' = "fst (projr (kcpInput ref_deps parity_pkt
                   (with_recovered [[3, 0, 0xAA], [0, 3, 0xAA], [5]] st_fec)))"
      and c' = "snd (projr (kcpInput ref_deps parity_pkt
                   (with_recovered [[3, 0, 0xAA], [0, 3, 0xAA], [5]] st_fec)))"]
  by (simp add: eval_simps consistent_def embedded_length_def)

lemma in_place_length: "length (in_place f xs) = length xs"
  by (simp add: in_place_def copy_into_def)

lemma verify_mismatch:
  assumes "cryptHeaderSize \<le> length data0"
    and "Uint32 (drop nonceSize (in_place (Decrypt bc) data0))
           \<noteq> Inr (ChecksumIEEE D (drop cryptHeaderSize (in_place (Decrypt bc) data0)))"
  shows "verify_packet D (Some bc) data0 = Inr None"
proof -
  let ?d = "in_place (Decrypt bc) data0"
  have l: "length ?d = length data0" by (rule in_place_length)
  with assms(1) have 1: "slice_from (int nonceSize) ?d = Inr (drop nonceSize ?d)"
    by (simp add: slice_from_def cryptHeaderSize_def)
  from l assms(1) have 2: "slice_from (int crcSize) (drop nonceSize ?d) = Inr (drop cryptHeaderSize ?d)"
    by (simp add: slice_from_def cryptHeaderSize_def add.commute)
  from l assms(1) have "4 \<le> length (drop nonceSize ?d)"
    by (simp add: cryptHeaderSize_def crcSize_def)
  then obtain v where 3: "Uint32 (drop nonceSize ?d) = Inr v" by (auto simp: Uint32_def)
  with assms(2) have "ChecksumIEEE D (drop cryptHeaderSize ?d) \<noteq> v" by auto
  with 1 2 3 show ?thesis by (simp add: verify_packet_def)
qed

text \<open>
  C2. With a block cipher set, a datagram whose checksum field differs from the CRC32 of
  the bytes after it is dropped by the read loop of a client session and by the monitor
  of a listener alike: the session, the sessions of the listener, the KCP cores and the
  trace are as before (no \<^verbatim>\<open>KCP.Input\<close>, no new session, nothing on the error channel),
  the result is not a panic, and \<open>InCsumErrors\<close> has grown by one. The datagram has at
  least the 20 bytes of the crypto header, as every datagram the receiver passes on has.
\<close>

theorem crc_mismatch_dropped:
  assumes "cryptHeaderSize \<le> length data0"
    and "Uint32 (drop nonceSize (in_place (Decrypt bc) data0))
           \<noteq> Inr (ChecksumIEEE D (drop cryptHeaderSize (in_place (Decrypt bc) data0)))"
  shows "(block s = Some bc \<longrightarrow>
            readLoop_packet D data0 (s, c)
              = Inr (s, c\<lparr>snmp := (snmp c)\<lparr>InCsumErrors := InCsumErrors (snmp c) + 1\<rparr>\<rparr>)) \<and>
         (l_block (lis w) = Some bc \<longrightarrow>
            monitor_packet D from data0 w
              = Inr (w\<lparr>ctx := (ctx w)\<lparr>snmp := (snmp (ctx w))\<lparr>InCsumErrors :=
                                     InCsumErrors (snmp (ctx w)) + 1\<rparr>\<rparr>\<rparr>))"
  using verify_mismatch [OF assms]
  by (simp add: readLoop_packet_def monitor_packet_def count_csum_error_def)

theorem crc_mismatch_dropped_witness:
  "cryptHeaderSize \<le> length (sealed_pkt 0) \<and>
   ctx_after (\<lambda>c. (InCsumErrors (snmp c), trace c)) (readLoop_packet ref_deps (sealed_pkt 0) st_crypt)
     = Some (1, trace (snd st_crypt)) \<and>
   map_sum id (\<lambda>w. (InCsumErrors (snmp (ctx w)), trace (ctx w), dom (heap w)))
      (monitor_packet ref_deps ''peer'' (sealed_pkt 0) w_crypt) = Inr (1, [], {})"
  using crc_mismatch_dropped [where ?data0.0 = "sealed_pkt 0" and bc = ref_block and D = ref_deps
      and s = "fst st_crypt" and c = "snd st_crypt" and w = w_crypt and ?from.0 = "''peer''"]
  by (simp add: eval_simps sealed_pkt_def seg_ack_def le32_def in_place_def copy_into_def
      st_crypt_def w_crypt_def ServeConn_def)

subsection \<open>The stream interface\<close>

lemma Write_closed:
  "isClosed s \<Longrightarrow> Write D sched now b (s, c) = Some (Inr ((0, Some (errors_New errBrokenPipe)), (s, c)))"
  by (cases sched) (simp_all add: Write_pass_def)

lemma Read_closed_empty:
  "isClosed s \<Longrightarrow> bufptr s = [] \<Longrightarrow>
     Read D sched now b (s, c) = Some ((0, Some (errors_New errBrokenPipe), b), (s, c))"
  by (cases sched) (simp_all add: Read_pass_def)

lemma Read_leftover:
  "bufptr s \<noteq> [] \<Longrightarrow>
     Read D sched now b (s, c) =
       Some ((int (min (length b) (length (bufptr s))), None, copy_into b (bufptr s)),
             (s\<lparr>bufptr := drop (min (length b) (length (bufptr s))) (bufptr s)\<rparr>, c))"
  by (cases sched) (simp_all add: Read_pass_def Let_def)

lemma Close_first:
  "\<not> isClosed s \<Longrightarrow>
     fst (Close D (s, c)) = (if sess_l s = None then fst (conn_Close D (conn c)) else None) \<and>
     isClosed (fst (snd (Close D (s, c)))) \<and> die (fst (snd (Close D (s, c))))"
  by (simp add: Close_def Let_def split: prod.splits)

lemma Close_again:
  "isClosed s \<Longrightarrow>
     fst (Close D (s, c)) = Some (errors_New errBrokenPipe) \<and> fst (snd (Close D (s, c))) = s"
  by (simp add: Close_def Let_def)

lemma Read_pass_keeps_closed:
  "isClosed s \<Longrightarrow> isClosed (fst (snd (Read_pass D now b (s, c))))"
  by (simp add: Read_pass_def Let_def split: prod.splits)

lemma notify_after_input_closed: "isClosed (notify_after_input D w s) = isClosed s"
  by (simp add: notify_after_input_def notifyReadEvent_def notifyWriteEvent_def Let_def)

lemma kcpInput_isClosed:
  assumes "kcpInput D data0 (s, c) = Inr (s', c')"
  shows "isClosed s' = isClosed s"
proof (cases "fecDecoder s")
  case None
  with assms obtain ret s1 c1 where ci: "call_Input D data0 True (s, c) = Inr (ret, (s1, c1))"
    and s': "s' = notify_after_input D (WaitSnd D (kcp s)) s1"
    by (auto simp: kcpInput_def Let_def split: sum.splits prod.splits)
  from call_Input_effect [OF ci] have "ingress_frame (s, c) (s1, c1)" by blast
  from ingress_frame_keeps(3) [OF this] s' show ?thesis by (simp add: notify_after_input_closed)
next
  case (Some d)
  show ?thesis
  proof (cases "length data0 > fecHeaderSize \<and>
      (flag (decodeBytes D d data0) = typeData \<or> flag (decodeBytes D d data0) = typeFEC)")
    case False
    with assms Some have "s' = s" by (auto simp: kcpInput_def Let_def split: if_splits)
    then show ?thesis by simp
  next
    case True
    let ?s0 = "s\<lparr>fecDecoder := Some (snd (decode D (decodeBytes D d data0) d))\<rparr>"
    from True have len: "length data0 > fecHeaderSize" and
      flg: "flag (decodeBytes D d data0) = typeData \<or> flag (decodeBytes D d data0) = typeFEC" by simp_all
    from kcpInput_fec_parts [OF Some len flg assms] obtain s1 c1 k1 s2 c2 k fe fr where
      fr1: "ingress_frame (?s0, c) (s1, c1)" and
      rec: "input_recovers D (fst (decode D (decodeBytes D d data0) d)) ((s1, c1), k1, 0, 0)
             = Inr ((s2, c2), k, fe, fr)" and
      fs: "s' = notify_after_input D (WaitSnd D (kcp s)) s2"
      by blast
    from input_recovers_effect [OF rec] have fr2: "ingress_frame (s1, c1) (s2, c2)" by blast
    have c2: "isClosed s2 = isClosed s"
      using ingress_frame_keeps(3) [OF fr1] ingress_frame_keeps(3) [OF fr2] by simp
    with fs show ?thesis by (simp add: notify_after_input_closed)
  qed
qed

lemma readLoop_packet_isClosed:
  assumes "readLoop_packet D data0 (s, c) = Inr (s', c')"
  shows "isClosed s' = isClosed s"
  using assms
  by (auto simp: readLoop_packet_def split: sum.splits option.splits dest: kcpInput_isClosed)


text \<open>
  C1, as amended. The first \<^verbatim>\<open>Close\<close> of a session returns \<^verbatim>\<open>nil\<close> for an accepted session
  and the result of closing the connection for a client session, and leaves the session
  closed. On a closed session \<^verbatim>\<open>Close\<close> and \<^verbatim>\<open>Write\<close> return broken pipe at once, whatever
  the schedule, and so does \<^verbatim>\<open>Read\<close> when the carry buffer \<^verbatim>\<open>bufptr\<close> is empty; when bytes
  are left there, \<^verbatim>\<open>Read\<close> returns them with a \<^verbatim>\<open>nil\<close> error instead. None of these calls,
  nor a datagram coming in, opens the session again.
\<close>

theorem close_then_broken_pipe:
  "(\<not> isClosed s \<longrightarrow>
      fst (Close D (s, c)) = (if sess_l s = None then fst (conn_Close D (conn c)) else None) \<and>
      isClosed (fst (snd (Close D (s, c))))) \<and>
   (isClosed s \<longrightarrow>
      fst (Close D (s, c)) = Some (errors_New errBrokenPipe) \<and>
      isClosed (fst (snd (Close D (s, c)))) \<and>
      Write D wsched now b (s, c) = Some (Inr ((0, Some (errors_New errBrokenPipe)), (s, c))) \<and>
      (bufptr s = [] \<longrightarrow>
         Read D rsched now b (s, c) = Some ((0, Some (errors_New errBrokenPipe), b), (s, c))) \<and>
      (bufptr s \<noteq> [] \<longrightarrow>
         Read D rsched now b (s, c) =
           Some ((int (min (length b) (length (bufptr s))), None, copy_into b (bufptr s)),
                 (s\<lparr>bufptr := drop (min (length b) (length (bufptr s))) (bufptr s)\<rparr>, c))) \<and>
      (\<forall>data0 s' c'. readLoop_packet D data0 (s, c) = Inr (s', c') \<longrightarrow> isClosed s'))"
proof (intro conjI impI allI)
  assume "\<not> isClosed s"
  from Close_first [OF this]
  show "fst (Close D (s, c)) = (if sess_l s = None then fst (conn_Close D (conn c)) else None)"
    and "isClosed (fst (snd (Close D (s, c))))" by blast+
next
  assume cl: "isClosed s"
  from Close_again [OF cl, of D c] cl
  show "fst (Close D (s, c)) = Some (errors_New errBrokenPipe)"
    and "isClosed (fst (snd (Close D (s, c))))" by simp_all
  from Write_closed [OF cl]
  show "Write D wsched now b (s, c) = Some (Inr ((0, Some (errors_New errBrokenPipe)), (s, c)))" .
  { assume "bufptr s = []"
    from Read_closed_empty [OF cl this]
    show "Read D rsched now b (s, c) = Some ((0, Some (errors_New errBrokenPipe), b), (s, c))" . }
  { assume "bufptr s \<noteq> []"
    from Read_leftover [OF this]
    show "Read D rsched now b (s, c) =
           Some ((int (min (length b) (length (bufptr s))), None, copy_into b (bufptr s)),
                 (s\<lparr>bufptr := drop (min (length b) (length (bufptr s))) (bufptr s)\<rparr>, c))" . }
  { fix data0 s' c'
    assume "readLoop_packet D data0 (s, c) = Inr (s', c')"
    from readLoop_packet_isClosed [OF this] cl show "isClosed s'" by simp }
qed

lemmas chain_simps = st_acked_def st_short_read_def st_closed_def push_pkt_def readLoop_packet_def
  verify_packet_def Read_pass_def Close_def copy_into_def mtuLimit_def

text \<open>
  C1 as stated fails for \<^verbatim>\<open>Read\<close>: a message of two bytes comes in, a \<^verbatim>\<open>Read\<close> into a
  buffer of one byte leaves the second byte in \<^verbatim>\<open>bufptr\<close>, the session is closed, and the
  next \<^verbatim>\<open>Read\<close> returns that byte and no error, since \<^verbatim>\<open>Read\<close> looks at \<^verbatim>\<open>bufptr\<close> before
  it looks at \<^verbatim>\<open>isClosed\<close>.
\<close>

theorem read_after_close_counterexample:
  "isClosed (fst st_closed) \<and>
   map_option fst (Read ref_deps [] 0 [0] st_closed) = Some (1, None, [0x42])"
  by (simp add: eval_simps chain_simps)


theorem close_then_broken_pipe_witness:
  "\<not> isClosed (fst st_short_read) \<and> fst (Close ref_deps st_short_read) = None \<and>
   isClosed (fst st_closed) \<and> fst (Close ref_deps st_closed) = Some (errors_New errBrokenPipe) \<and>
   map_option (map_sum id fst) (Write ref_deps [] 0 [1] st_closed)
     = Some (Inr (0, Some (errors_New errBrokenPipe))) \<and>
   bufptr (fst (snd (the (Read ref_deps [] 0 [0] st_closed)))) = [] \<and>
   map_option fst (Read ref_deps [] 0 [0] (snd (the (Read ref_deps [] 0 [0] st_closed))))
     = Some (0, Some (errors_New errBrokenPipe), [0])"
proof -
  let ?st3 = "snd (the (Read ref_deps [] 0 [0] st_closed))"
  have o: "\<not> isClosed (fst st_short_read)" and l: "sess_l (fst st_short_read) = None"
    and cc: "fst (conn_Close ref_deps (conn (snd st_short_read))) = None"
    by (simp_all add: eval_simps chain_simps)
  have c: "isClosed (fst st_closed)" by (simp add: eval_simps chain_simps)
  have c3: "isClosed (fst ?st3)" and e3: "bufptr (fst ?st3) = []"
    by (simp_all add: eval_simps chain_simps)
  from close_then_broken_pipe [where s = "fst st_short_read" and c = "snd st_short_read"
          and D = ref_deps] o l cc
  have 1: "fst (Close ref_deps st_short_read) = None" by simp
  from close_then_broken_pipe [where s = "fst st_closed" and c = "snd st_closed"
          and D = ref_deps and wsched = "[]" and now = 0 and b = "[1]"] c
  have 2: "fst (Close ref_deps st_closed) = Some (errors_New errBrokenPipe)"
    and 3: "Write ref_deps [] 0 [1] st_closed
        = Some (Inr ((0, Some (errors_New errBrokenPipe)), st_closed))" by simp_all
  from close_then_broken_pipe [where s = "fst ?st3" and c = "snd ?st3"
          and D = ref_deps and rsched = "[]" and now = 0 and b = "[0]"] c3 e3
  have 4: "Read ref_deps [] 0 [0] ?st3 = Some ((0, Some (errors_New errBrokenPipe), [0]), ?st3)"
    by simp
  from o 1 c 2 3 e3 4 show ?thesis by simp
qed

declare fragments.simps [simp del]

lemma concat_fragments: "concat (fragments m b) = b"
proof (induction m b rule: fragments.induct)
  case (1 m b)
  show ?case
  proof (cases "m = 0 \<or> length b \<le> m")
    case True
    then show ?thesis by (subst fragments.simps) simp
  next
    case False
    with 1 show ?thesis by (subst fragments.simps) simp
  qed
qed

lemma fragments_sizes:
  "0 < m \<Longrightarrow> (\<forall>f \<in> set (butlast (fragments m b)). length f = m) \<and> length (last (fragments m b)) \<le> m"
proof (induction m b rule: fragments.induct)
  case (1 m b)
  show ?case
  proof (cases "m = 0 \<or> length b \<le> m")
    case True
    with 1(2) show ?thesis by (subst (1 2) fragments.simps) simp
  next
    case False
    from False have ne: "fragments m (drop m b) \<noteq> []" by (subst fragments.simps) simp
    from 1(1) [OF False 1(2)] False ne show ?thesis
      by (subst (1 2) fragments.simps) (auto simp: min_def)
  qed
qed

lemma send_loop_fragments:
  assumes inv: "\<forall>x k. mss D (Send D x k) = mss D k"
  shows "0 < unat (mss D k) \<Longrightarrow>
     send_loop D b k tr = Some (fold (Send D) (fragments (unat (mss D k)) b) k,
                               tr @ map KCP_Send (fragments (unat (mss D k)) b))"
proof (induction "unat (mss D k)" b arbitrary: k tr rule: fragments.induct)
  case (1 b)
  have le: "(int (length b) \<le> uint (mss D k)) = (length b \<le> unat (mss D k))"
    by (metis uint_nat of_nat_le_iff)
  show ?case
  proof (cases "length b \<le> unat (mss D k)")
    case True
    then show ?thesis
      by (subst send_loop.simps, subst (1 2) fragments.simps) (simp add: le)
  next
    case False
    let ?k1 = "Send D (take (unat (mss D k)) b) k"
    have m: "mss D ?k1 = mss D k" using inv by simp
    from False 1(2) have c: "\<not> (unat (mss D k) = 0 \<or> length b \<le> unat (mss D k))" by simp
    from 1(1) [OF c, of ?k1] m 1(2) have
      "send_loop D (drop (unat (mss D k)) b) ?k1 (tr @ [KCP_Send (take (unat (mss D k)) b)])
        = Some (fold (Send D) (fragments (unat (mss D k)) (drop (unat (mss D k)) b)) ?k1,
                (tr @ [KCP_Send (take (unat (mss D k)) b)])
                  @ map KCP_Send (fragments (unat (mss D k)) (drop (unat (mss D k)) b)))"
      by simp
    with False 1(2) show ?thesis
      by (subst send_loop.simps, subst (1 2) fragments.simps) (simp add: le)
  qed
qed


lemma call_flush_effect:
  assumes "call_flush D a (s, c) = Inr (s', c')"
  shows "\<exists>ws. list_all is_write ws \<and> trace c' = trace c @ KCP_flush a # ws"
proof -
  obtain outs k' where f: "flush D a (kcp s) = (outs, k')" by (cases "flush D a (kcp s)")
  let ?c1 = "c\<lparr>trace := trace c @ [KCP_flush a]\<rparr>"
  from assms f have o: "kcp_outputs D outs (s\<lparr>kcp := k'\<rparr>, ?c1) = Inr (s', c')"
    by (simp add: call_flush_def)
  from kcp_outputs_frame [OF o] obtain ws where "list_all is_write ws" "trace c' = trace ?c1 @ ws"
    by (auto simp: egress_frame_def)
  then show ?thesis by auto
qed

lemma Write_pass_saturated:
  assumes "\<not> isClosed s" "uint (snd_wnd D (kcp s)) \<le> WaitSnd D (kcp s)"
  shows "Write_pass D now b (s, c) =
           Some (Inr (if wd s \<noteq> 0 \<and> wd s < now then Returned (0, Some errTimeout) else Parked, (s, c)))"
  using assms by (simp add: Write_pass_def)

lemma Write_pass_admitted:
  assumes "\<not> isClosed s" "WaitSnd D (kcp s) < uint (snd_wnd D (kcp s))"
    and "send_loop D b (kcp s) (trace c) = Some (k', tr')"
  shows "Write_pass D now b (s, c) =
          (case (if uint (snd_wnd D k') \<le> WaitSnd D k' \<or> \<not> writeDelay s
                 then call_flush D False (s\<lparr>kcp := k'\<rparr>, c\<lparr>trace := tr'\<rparr>)
                 else Inr (s\<lparr>kcp := k'\<rparr>, c\<lparr>trace := tr'\<rparr>)) of
             Inl p \<Rightarrow> Some (Inl p)
           | Inr (s', c') \<Rightarrow>
               Some (Inr (Returned (int (length b), None),
                          (s', c'\<lparr>snmp := (snmp c')\<lparr>BytesSent :=
                                      BytesSent (snmp c') + of_nat (length b)\<rparr>\<rparr>))))"
  using assms by (simp add: Write_pass_def)

lemma Write_pass_trace:
  assumes "\<not> isClosed s" "WaitSnd D (kcp s) < uint (snd_wnd D (kcp s))"
    and "send_loop D b (kcp s) (trace c) = Some (k', trace c @ map KCP_Send chunks)"
    and "Write_pass D now b (s, c) = Some (Inr (r, (s', c')))"
  shows "r = Returned (int (length b), None) \<and>
         (\<exists>ws. list_all is_write ws \<and>
            trace c' = trace c @ map KCP_Send chunks
               @ (if uint (snd_wnd D k') \<le> WaitSnd D k' \<or> \<not> writeDelay s
                  then KCP_flush False # ws else []))"
proof (cases "uint (snd_wnd D k') \<le> WaitSnd D k' \<or> \<not> writeDelay s")
  case True
  let ?st1 = "(s\<lparr>kcp := k'\<rparr>, c\<lparr>trace := trace c @ map KCP_Send chunks\<rparr>)"
  from assms(4) True obtain s2 c2 where
    cf: "call_flush D False ?st1 = Inr (s2, c2)" and
    r: "r = Returned (int (length b), None)" and
    c': "c' = c2\<lparr>snmp := (snmp c2)\<lparr>BytesSent := BytesSent (snmp c2) + of_nat (length b)\<rparr>\<rparr>"
    unfolding Write_pass_admitted [OF assms(1,2,3)]
    by (auto split: sum.splits prod.splits if_splits)
  from call_flush_effect [OF cf] obtain ws where
    "list_all is_write ws" "trace c2 = trace c @ map KCP_Send chunks @ KCP_flush False # ws"
    by auto
  with r c' True show ?thesis by auto
next
  case False
  from assms(4) False have "r = Returned (int (length b), None)"
    and "trace c' = trace c @ map KCP_Send chunks"
    unfolding Write_pass_admitted [OF assms(1,2,3)] by auto
  moreover have "\<exists>ws. list_all is_write ws" by (rule exI [of _ "[]"]) simp
  ultimately show ?thesis using False by simp
qed

lemma Write_of_pass:
  "Write_pass D now b st = Some (Inr (Returned r, st')) \<Longrightarrow> Write D sched now b st = Some (Inr (r, st'))"
  "Write_pass D now b st = Some (Inl p) \<Longrightarrow> Write D sched now b st = Some (Inl p)"
  "Write_pass D now b st = None \<Longrightarrow> Write D sched now b st = None"
  by (cases sched; simp)+

lemma Write_admitted_returns:
  assumes "\<not> isClosed s" "WaitSnd D (kcp s) < uint (snd_wnd D (kcp s))"
    and "send_loop D b (kcp s) (trace c) = Some (k', tr')"
  shows "\<exists>r. Write D sched now b (s, c) = Some r"
proof -
  from Write_pass_admitted [OF assms, of now]
  have "(\<exists>p. Write_pass D now b (s, c) = Some (Inl p)) \<or>
        (\<exists>r st'. Write_pass D now b (s, c) = Some (Inr (Returned r, st')))"
    by (auto split: sum.splits prod.splits)
  then show ?thesis using Write_of_pass(1,2) [of D now b "(s, c)"] by metis
qed

text \<open>
  C6, as amended. On an open session, while the send window is saturated a \<^verbatim>\<open>Write\<close>
  hands nothing to the KCP core and leaves the state as it is: it parks until the next
  wake-up and tries again, or, when a write deadline is set and has passed, returns the
  timeout error. Once the window is not saturated (and the segment size of the core is
  positive and not changed by \<^verbatim>\<open>Send\<close>), the call returns; the buffer goes to \<^verbatim>\<open>Send\<close> in
  fragments that put together give the buffer, each of \<open>mss\<close> bytes but the last, which
  has at most \<open>mss\<close>; \<^verbatim>\<open>flush(false)\<close> follows if and only if the window is saturated after
  the last \<^verbatim>\<open>Send\<close> or \<^verbatim>\<open>writeDelay\<close> is false, and nothing but the writes of that flush
  follows it.
\<close>

theorem write_blocks_fragments_flushes:
  assumes "\<not> isClosed s"
  shows "(uint (snd_wnd D (kcp s)) \<le> WaitSnd D (kcp s) \<and> \<not> (wd s \<noteq> 0 \<and> wd s < now) \<longrightarrow>
            Write D [] now b (s, c) = None \<and>
            Write D ((t, others) # rest) now b (s, c) = Write D rest t b (others (s, c))) \<and>
         (uint (snd_wnd D (kcp s)) \<le> WaitSnd D (kcp s) \<and> wd s \<noteq> 0 \<and> wd s < now \<longrightarrow>
            Write D sched now b (s, c) = Some (Inr ((0, Some errTimeout), (s, c)))) \<and>
         (WaitSnd D (kcp s) < uint (snd_wnd D (kcp s)) \<and>
          (\<forall>x k. mss D (Send D x k) = mss D k) \<and> 0 < unat (mss D (kcp s)) \<longrightarrow>
            (let m = unat (mss D (kcp s)); frs = fragments m b; k' = fold (Send D) frs (kcp s)
             in concat frs = b \<and>
                (\<forall>f \<in> set (butlast frs). length f = m) \<and> length (last frs) \<le> m \<and>
                (\<exists>r. Write D sched now b (s, c) = Some r) \<and>
                (\<forall>n e s' c'. Write D sched now b (s, c) = Some (Inr ((n, e), (s', c'))) \<longrightarrow>
                   n = int (length b) \<and> e = None \<and>
                   (\<exists>ws. list_all is_write ws \<and>
                      trace c' = trace c @ map KCP_Send frs
                        @ (if uint (snd_wnd D k') \<le> WaitSnd D k' \<or> \<not> writeDelay s
                           then KCP_flush False # ws else [])))))"
proof (intro conjI impI)
  assume a: "uint (snd_wnd D (kcp s)) \<le> WaitSnd D (kcp s) \<and> \<not> (wd s \<noteq> 0 \<and> wd s < now)"
  with Write_pass_saturated [OF assms, of D now b c]
  have p: "Write_pass D now b (s, c) = Some (Inr (Parked, (s, c)))" by auto
  then show "Write D [] now b (s, c) = None" by simp
  from p show "Write D ((t, others) # rest) now b (s, c) = Write D rest t b (others (s, c))" by simp
next
  assume a: "uint (snd_wnd D (kcp s)) \<le> WaitSnd D (kcp s) \<and> wd s \<noteq> 0 \<and> wd s < now"
  with Write_pass_saturated [OF assms, of D now b c]
  have "Write_pass D now b (s, c) = Some (Inr (Returned (0, Some errTimeout), (s, c)))" by auto
  from Write_of_pass(1) [OF this]
  show "Write D sched now b (s, c) = Some (Inr ((0, Some errTimeout), (s, c)))" .
next
  assume a: "WaitSnd D (kcp s) < uint (snd_wnd D (kcp s)) \<and>
          (\<forall>x k. mss D (Send D x k) = mss D k) \<and> 0 < unat (mss D (kcp s))"
  let ?m = "unat (mss D (kcp s))"
  let ?frs = "fragments ?m b"
  let ?k' = "fold (Send D) ?frs (kcp s)"
  from a have w: "WaitSnd D (kcp s) < uint (snd_wnd D (kcp s))"
    and inv: "\<forall>x k. mss D (Send D x k) = mss D k" and pos: "0 < ?m" by simp_all
  from send_loop_fragments [OF inv pos]
  have sl: "send_loop D b (kcp s) (trace c) = Some (?k', trace c @ map KCP_Send ?frs)" .
  have 1: "concat ?frs = b" by (rule concat_fragments)
  from fragments_sizes [OF pos, of b]
  have 2: "\<forall>f \<in> set (butlast ?frs). length f = ?m" and 3: "length (last ?frs) \<le> ?m" by simp_all
  from Write_admitted_returns [OF assms w sl]
  have 4: "\<exists>r. Write D sched now b (s, c) = Some r" .
  have 5: "\<forall>n e s' c'. Write D sched now b (s, c) = Some (Inr ((n, e), (s', c'))) \<longrightarrow>
                   n = int (length b) \<and> e = None \<and>
                   (\<exists>ws. list_all is_write ws \<and>
                      trace c' = trace c @ map KCP_Send ?frs
                        @ (if uint (snd_wnd D ?k') \<le> WaitSnd D ?k' \<or> \<not> writeDelay s
                           then KCP_flush False # ws else []))"
  proof (intro allI impI)
    fix n e s' c'
    assume r: "Write D sched now b (s, c) = Some (Inr ((n, e), (s', c')))"
    from Write_pass_admitted [OF assms w sl, of now] r
    have "Write_pass D now b (s, c) = Some (Inr (Returned (n, e), (s', c')))"
      by (cases sched) (auto split: sum.splits prod.splits if_splits)
    from Write_pass_trace [OF assms w sl this]
    show "n = int (length b) \<and> e = None \<and>
                   (\<exists>ws. list_all is_write ws \<and>
                      trace c' = trace c @ map KCP_Send ?frs
                        @ (if uint (snd_wnd D ?k') \<le> WaitSnd D ?k' \<or> \<not> writeDelay s
                           then KCP_flush False # ws else []))" by simp
  qed
  from 1 2 3 4 5
  show "let m = unat (mss D (kcp s)); frs = fragments m b; k' = fold (Send D) frs (kcp s)
             in concat frs = b \<and>
                (\<forall>f \<in> set (butlast frs). length f = m) \<and> length (last frs) \<le> m \<and>
                (\<exists>r. Write D sched now b (s, c) = Some r) \<and>
                (\<forall>n e s' c'. Write D sched now b (s, c) = Some (Inr ((n, e), (s', c'))) \<longrightarrow>
                   n = int (length b) \<and> e = None \<and>
                   (\<exists>ws. list_all is_write ws \<and>
                      trace c' = trace c @ map KCP_Send frs
                        @ (if uint (snd_wnd D k') \<le> WaitSnd D k' \<or> \<not> writeDelay s
                           then KCP_flush False # ws else [])))"
    unfolding Let_def by blast
qed

lemmas write_simps = st_small_def st_full_def Write_pass_def call_flush_def kcp_output_def
  output_def output_buffers_def output_encode_def write_to_def dup_rounds_def returned_def
  state_after_def ref_segment_def le32_def IKCP_OVERHEAD_def

theorem write_blocks_fragments_flushes_witness:
  "\<not> isClosed (fst st_full) \<and> Write ref_deps [] 3 [1, 2, 3] st_full = None \<and>
   returned (Write ref_deps [] 10 [1, 2, 3] st_full) = Some (0, Some errTimeout) \<and>
   \<not> isClosed (fst st_small) \<and> fragments 2 [1, 2, 3, 4, 5] = [[1, 2], [3, 4], [5]] \<and>
   returned (Write ref_deps [] 0 [1, 2, 3, 4, 5] st_small) = Some (5, None)"
proof -
  have o: "\<not> isClosed (fst st_full)"
    and sat: "uint (snd_wnd ref_deps (kcp (fst st_full))) \<le> WaitSnd ref_deps (kcp (fst st_full))"
    and wd: "wd (fst st_full) = 5"
    by (simp_all add: eval_simps write_simps)
  from write_blocks_fragments_flushes [OF o, where D = ref_deps and now = 3 and b = "[1, 2, 3]"
        and c = "snd st_full"] sat wd
  have 1: "Write ref_deps [] 3 [1, 2, 3] st_full = None" by simp
  from write_blocks_fragments_flushes [OF o, where D = ref_deps and now = 10 and b = "[1, 2, 3]"
        and c = "snd st_full" and sched = "[]"] sat wd
  have 2: "Write ref_deps [] 10 [1, 2, 3] st_full = Some (Inr ((0, Some errTimeout), st_full))" by simp
  have o': "\<not> isClosed (fst st_small)"
    and un: "WaitSnd ref_deps (kcp (fst st_small)) < uint (snd_wnd ref_deps (kcp (fst st_small)))"
    and m: "unat (mss ref_deps (kcp (fst st_small))) = 2"
    and inv: "\<forall>x k. mss ref_deps (Send ref_deps x k) = mss ref_deps k"
    by (simp_all add: eval_simps write_simps)
  from write_blocks_fragments_flushes [OF o', where D = ref_deps and now = 0 and b = "[1, 2, 3, 4, 5]"
        and c = "snd st_small" and sched = "[]"] un m inv
  have 3: "concat (fragments 2 [1, 2, 3, 4, 5]) = [1, 2, 3, 4, 5]"
    by (simp add: Let_def)
  have 4: "fragments 2 [1, 2, 3, 4, 5] = [[1, 2], [3, 4], [5]]" by (simp add: fragments.simps)
  have 5: "returned (Write ref_deps [] 0 [1, 2, 3, 4, 5] st_small) = Some (5, None)"
    by (simp add: eval_simps write_simps send_loop.simps)
  from o 1 2 o' 3 4 5 show ?thesis by (simp add: returned_def)
qed

text \<open>
  C6 as stated fails where the write deadline has passed: the window is saturated, the
  session is open, and \<^verbatim>\<open>Write\<close> returns the timeout error instead of blocking.
\<close>

theorem write_deadline_counterexample:
  "\<not> isClosed (fst st_full) \<and>
   uint (snd_wnd ref_deps (kcp (fst st_full))) \<le> WaitSnd ref_deps (kcp (fst st_full)) \<and>
   returned (Write ref_deps [] 10 [1, 2, 3] st_full) = Some (0, Some errTimeout)"
  by (simp add: eval_simps write_simps)








subsection \<open>The listener\<close>

lemma extends_refl: "extends tr tr"
  by (simp add: extends_def)

lemma extends_trans: "extends a b \<Longrightarrow> extends b c \<Longrightarrow> extends a c"
  by (auto simp: extends_def)

lemma call_Input_grows:
  "call_Input D b regular (s, c) = Inr (ret, (s', c')) \<Longrightarrow> extends (trace c) (trace c')"
  using call_Input_effect [of D b regular s c ret s' c'] by (auto simp: extends_def)

lemma input_recovers_grows:
  "input_recovers D rs ((s, c), k, f, g) = Inr ((s', c'), k', f', g') \<Longrightarrow> extends (trace c) (trace c')"
proof (induction rs arbitrary: s c k f g)
  case Nil
  then show ?case by (simp add: extends_refl)
next
  case (Cons r rs)
  show ?case
  proof (cases "consistent r")
    case False
    with Cons.prems have "input_recovers D rs ((s, c), k, f + 1, g) = Inr ((s', c'), k', f', g')"
      by (simp only: input_recovers_skip [OF False])
    from Cons.IH [OF this] show ?thesis .
  next
    case True
    let ?b = "drop 2 (take (embedded_length r) r)"
    from Cons.prems True obtain ret s1 c1 where
      ci: "call_Input D ?b False (s, c) = Inr (ret, (s1, c1))" and
      rest: "input_recovers D rs ((s1, c1), if ret = 0 then k else k + 1, f, if ret = 0 then g + 1 else g)
               = Inr ((s', c'), k', f', g')"
      by (simp only: input_recovers_pass [OF True]) (auto split: sum.splits prod.splits if_splits)
    from extends_trans [OF call_Input_grows [OF ci] Cons.IH [OF rest]] show ?thesis .
  qed
qed

lemma kcpInput_grows:
  assumes "kcpInput D data0 (s, c) = Inr (s', c')"
  shows "extends (trace c) (trace c')"
proof (cases "fecDecoder s")
  case None
  with assms obtain ret s1 c1 where ci: "call_Input D data0 True (s, c) = Inr (ret, (s1, c1))"
    and c': "trace c' = trace c1"
    by (auto simp: kcpInput_def Let_def split: sum.splits prod.splits)
  from call_Input_grows [OF ci] c' show ?thesis by simp
next
  case (Some d)
  show ?thesis
  proof (cases "length data0 > fecHeaderSize \<and>
      (flag (decodeBytes D d data0) = typeData \<or> flag (decodeBytes D d data0) = typeFEC)")
    case False
    with assms Some have "trace c' = trace c" by (auto simp: kcpInput_def Let_def split: if_splits)
    then show ?thesis by (simp add: extends_refl)
  next
    case True
    then have len: "length data0 > fecHeaderSize" and
      flg: "flag (decodeBytes D d data0) = typeData \<or> flag (decodeBytes D d data0) = typeFEC" by simp_all
    from kcpInput_fec_parts [OF Some len flg assms] obtain s1 c1 k1 s2 c2 k fe fr where
      e1: "extends (trace c) (trace c1)" and
      rec: "input_recovers D (fst (decode D (decodeBytes D d data0) d)) ((s1, c1), k1, 0, 0)
             = Inr ((s2, c2), k, fe, fr)" and
      fin: "c' = c2\<lparr>snmp := count_input data0 (if flag (decodeBytes D d data0) = typeFEC then 1 else 0)
                                k fe fr (snmp c2)\<rparr>"
      by blast
    from extends_trans [OF e1 input_recovers_grows [OF rec]] fin show ?thesis by simp
  qed
qed

lemma find_session_keeps:
  "find_session l a = ((sp, ok), l1) \<Longrightarrow>
     chAccepts l1 = chAccepts l \<and> sessions l1 = sessions l \<and> l_fecDecoder l1 = l_fecDecoder l
     \<and> l_block l1 = l_block l"
  by (auto simp: find_session_def split: if_splits option.splits)

lemma find_session_unknown:
  "find_session l a = ((sp, False), l1) \<Longrightarrow> l1 = l \<and> a \<noteq> lastAddr l \<and> sessions l a = None"
  by (auto simp: find_session_def split: if_splits option.splits)

lemma monitor_packet_queue:
  assumes "monitor_packet D a data0 w = Inr w'"
  shows "chan_cap (chAccepts (lis w')) = chan_cap (chAccepts (lis w)) \<and>
         (length (chan_buf (chAccepts (lis w))) \<le> chan_cap (chAccepts (lis w)) \<longrightarrow>
          length (chan_buf (chAccepts (lis w'))) \<le> chan_cap (chAccepts (lis w)))"
  using assms
  by (auto simp: monitor_packet_def split: sum.splits option.splits prod.splits bool.splits if_splits
           dest!: find_session_keeps)

lemma step_queue:
  assumes "step D ev w = Inr w'"
  shows "chan_cap (chAccepts (lis w')) = chan_cap (chAccepts (lis w)) \<and>
         (length (chan_buf (chAccepts (lis w))) \<le> chan_cap (chAccepts (lis w)) \<longrightarrow>
          length (chan_buf (chAccepts (lis w'))) \<le> chan_cap (chAccepts (lis w)))"
proof (cases ev)
  case (Packet a data0)
  with assms monitor_packet_queue [of D a data0 w w'] show ?thesis by (simp add: step_def)
next
  case (SessionClosed a)
  with assms show ?thesis by (auto simp: step_def)
next
  case Accepted
  with assms show ?thesis by (auto simp: step_def)
qed

lemma run_queue:
  "run D evs w = Inr w' \<Longrightarrow>
     chan_cap (chAccepts (lis w)) = acceptBacklog \<Longrightarrow>
     length (chan_buf (chAccepts (lis w))) \<le> acceptBacklog \<Longrightarrow>
     chan_cap (chAccepts (lis w')) = acceptBacklog \<and>
     length (chan_buf (chAccepts (lis w'))) \<le> acceptBacklog"
proof (induction evs arbitrary: w)
  case Nil
  then show ?case by simp
next
  case (Cons ev evs)
  from Cons.prems(1) obtain w1 where s: "step D ev w = Inr w1" and r: "run D evs w1 = Inr w'"
    by (auto split: sum.splits)
  from step_queue [OF s] Cons.prems(2,3) have
    "chan_cap (chAccepts (lis w1)) = acceptBacklog" "length (chan_buf (chAccepts (lis w1))) \<le> acceptBacklog"
    by simp_all
  from Cons.IH [OF r this] show ?case .
qed

lemma ServeConn_queue:
  "chan_cap (chAccepts (lis (ServeConn D blk ds ps c))) = acceptBacklog \<and>
   chan_buf (chAccepts (lis (ServeConn D blk ds ps c))) = []"
  by (simp add: ServeConn_def Let_def)

lemma monitor_packet_parity:
  assumes "verify_packet D (l_block (lis w)) data0 = Inr (Some payload)"
    and "a \<noteq> lastAddr (lis w)" and "sessions (lis w) a = None"
    and "l_fecDecoder (lis w) \<noteq> None"
    and "Uint16 (drop 4 payload) = Inr typeFEC"
  shows "monitor_packet D a data0 w = Inr w"
proof -
  from assms(2,3) have f: "find_session (lis w) a = ((None, False), lis w)"
    by (simp add: find_session_def)
  from assms(5) have l: "4 \<le> length payload" by (auto simp: Uint16_def split: if_splits)
  have t: "typeFEC \<noteq> typeData" by (simp add: typeFEC_def typeData_def)
  from l assms(4,5) t have "read_conv (l_fecDecoder (lis w)) payload = Inr None"
    by (simp add: read_conv_def slice_from_def)
  with assms(1) f show ?thesis by (simp add: monitor_packet_def)
qed

lemma monitor_packet_created:
  assumes run: "monitor_packet D a data0 w = Inr w'" and new: "next_ptr w' \<noteq> next_ptr w"
  shows "length (chan_buf (chAccepts (lis w))) < chan_cap (chAccepts (lis w)) \<and>
         a \<noteq> lastAddr (lis w) \<and> sessions (lis w) a = None \<and>
         (\<exists>payload conv.
            verify_packet D (l_block (lis w)) data0 = Inr (Some payload) \<and>
            (if l_fecDecoder (lis w) = None then Uint32 payload = Inr conv
             else Uint16 (drop 4 payload) = Inr typeData \<and>
                  Uint32 (drop fecHeaderSizePlus2 payload) = Inr conv) \<and>
            extends (trace (ctx w) @ [KCP_New conv]) (trace (ctx w'))) \<and>
         sessions (lis w') = (sessions (lis w))(a \<mapsto> next_ptr w) \<and>
         chan_buf (chAccepts (lis w')) = chan_buf (chAccepts (lis w)) @ [next_ptr w] \<and>
         heap w' (next_ptr w) \<noteq> None"
proof -
  from run new obtain payload where v: "verify_packet D (l_block (lis w)) data0 = Inr (Some payload)"
    by (auto simp: monitor_packet_def count_csum_error_def split: sum.splits option.splits)
  obtain sp ok l1 where f: "find_session (lis w) a = ((sp, ok), l1)"
    by (metis prod.exhaust)
  from run new v f have nok: "\<not> ok"
    by (auto simp: monitor_packet_def split: sum.splits option.splits)
  with find_session_unknown [of "lis w" a sp l1] f have
    l1: "l1 = lis w" and na: "a \<noteq> lastAddr (lis w)" and ns: "sessions (lis w) a = None" by simp_all
  from run new v f nok l1 have room: "length (chan_buf (chAccepts (lis w))) < chan_cap (chAccepts (lis w))"
    by (auto simp: monitor_packet_def split: sum.splits option.splits if_splits)
  from run new v f nok l1 room obtain conv where rc: "read_conv (l_fecDecoder (lis w)) payload = Inr (Some conv)"
    by (auto simp: monitor_packet_def split: sum.splits option.splits if_splits)
  let ?st0 = "newUDPSession D conv (l_dataShards (lis w)) (l_parityShards (lis w)) (Some 0)
                a (l_block (lis w)) (ctx w)"
  obtain s0 c0 where n0: "?st0 = (s0, c0)" by (cases ?st0)
  from run v f nok l1 room rc n0 obtain s' c' where
    ki: "kcpInput D payload (s0, c0) = Inr (s', c')" and
    w': "w' = w\<lparr>heap := (heap w)(next_ptr w \<mapsto> s'), next_ptr := next_ptr w + 1,
               lis := (lis w)\<lparr>sessions := (sessions (lis w))(a \<mapsto> next_ptr w),
                              chAccepts := (chAccepts (lis w))\<lparr>chan_buf :=
                                 chan_buf (chAccepts (lis w)) @ [next_ptr w]\<rparr>\<rparr>,
               ctx := c'\<rparr>"
    by (auto simp: monitor_packet_def split: sum.splits option.splits if_splits)
  from n0 have "extends (trace (ctx w) @ [KCP_New conv]) (trace c0)"
    by (auto simp: newUDPSession_def Let_def extends_def)
  from extends_trans [OF this kcpInput_grows [OF ki]] w'
  have tr: "extends (trace (ctx w) @ [KCP_New conv]) (trace (ctx w'))" by simp
  have cv: "if l_fecDecoder (lis w) = None then Uint32 payload = Inr conv
             else Uint16 (drop 4 payload) = Inr typeData \<and>
                  Uint32 (drop fecHeaderSizePlus2 payload) = Inr conv"
    using rc
    by (auto simp: read_conv_def slice_from_def split: if_splits sum.splits)
  from room na ns v cv tr w' show ?thesis by auto
qed

end
